theory Spec2Isabelle
  imports Main "HOL-Library.Word" "HOL-Library.Sublist"
begin

section \<open>Data model\<close>

text \<open>
  The module \<^verbatim>\<open>monaco_assets\<close> downloads a pinned archive into a per-user cache
  directory, checks its SHA-1 digest, unpacks it and returns the path of the unpacked
  \<^verbatim>\<open>package\<close> directory. Everything it does is an effect on the file system or
  the network, so the embedding threads an explicit file-system tree and a log of the
  network requests, and every Python exception is a value.
\<close>

type_synonym byte = "8 word"
type_synonym bytes = "byte list"

text \<open>An absolute path, as the list of its components below the root.\<close>

type_synonym path = "string list"

subsection \<open>Exceptions\<close>

datatype exn_kind =
    FileNotFoundError | NotADirectoryError | FileExistsError | IsADirectoryError | OSError
  | URLError | ReadError | OutsideDestinationError | SpecialFileError
  | ValueError | RuntimeError

text \<open>
  An exception object: its class, \<^verbatim>\<open>str(e)\<close> and \<^verbatim>\<open>e.__cause__\<close>
  (set by \<^verbatim>\<open>raise ... from e\<close>).
\<close>

datatype exn = Exn (exn_type: exn_kind) (exn_str: string) (exn_cause: "exn option")

definition path_str :: "path \<Rightarrow> string" where
  "path_str p = (if p = [] then ''/'' else concat (map (\<lambda>c. CHR ''/'' # c) p))"

definition strerror :: "exn_kind \<Rightarrow> string" where
  "strerror k =
     (if k = FileNotFoundError then ''[Errno 2] No such file or directory''
      else if k = NotADirectoryError then ''[Errno 20] Not a directory''
      else if k = FileExistsError then ''[Errno 17] File exists''
      else if k = IsADirectoryError then ''[Errno 21] Is a directory''
      else ''[Errno 16] Device or resource busy'')"

definition os_error :: "exn_kind \<Rightarrow> path \<Rightarrow> exn" where
  "os_error k p = Exn k (strerror k @ '': '' @ [CHR 0x27] @ path_str p @ [CHR 0x27]) None"

subsection \<open>The file system\<close>

text \<open>
  The file system is a tree: a regular file with its content, a special file (device
  or FIFO), or a directory with its entries. Symbolic links are not modelled.
\<close>

datatype node = File bytes | Special | Dir "(string \<times> node) list"

datatype errno = ENOENT | ENOTDIR

text \<open>Path resolution, as the kernel walks it, from the root node.\<close>

fun walk :: "node \<Rightarrow> path \<Rightarrow> errno + node" where
  "walk n [] = Inr n"
| "walk n (c # cs) =
     (case n of
        Dir es \<Rightarrow> (case map_of es c of None \<Rightarrow> Inl ENOENT | Some n' \<Rightarrow> walk n' cs)
      | _ \<Rightarrow> Inl ENOTDIR)"

text \<open>What \<^verbatim>\<open>stat\<close> tells about a path: the kind of the node and, for a file, its content.\<close>

datatype entry = RegFile bytes | SpecialFile | Directory

fun kind_of :: "node \<Rightarrow> entry" where
  "kind_of (File b) = RegFile b"
| "kind_of Special = SpecialFile"
| "kind_of (Dir es) = Directory"

definition kind_at :: "node \<Rightarrow> path \<Rightarrow> entry option" where
  "kind_at t p = (case walk t p of Inl _ \<Rightarrow> None | Inr n \<Rightarrow> Some (kind_of n))"

text \<open>\<^verbatim>\<open>Path.exists()\<close> and \<^verbatim>\<open>Path.is_dir()\<close>: both answer False on ENOENT and ENOTDIR.\<close>

definition exists :: "node \<Rightarrow> path \<Rightarrow> bool" where
  "exists t p = (case walk t p of Inl _ \<Rightarrow> False | Inr _ \<Rightarrow> True)"

definition is_dir :: "node \<Rightarrow> path \<Rightarrow> bool" where
  "is_dir t p = (case walk t p of Inr (Dir _) \<Rightarrow> True | _ \<Rightarrow> False)"

text \<open>
  The two tree updates every operation below is built from: \<open>put\<close> installs a node at a
  path whose parent is a directory, \<open>remove\<close> deletes the entry at a path with all that
  is below it. Each operation checks what the system call checks before it uses them.
\<close>

fun put :: "path \<Rightarrow> node \<Rightarrow> node \<Rightarrow> node" where
  "put [] n t = n"
| "put (c # cs) n t =
     (case t of
        Dir es \<Rightarrow>
          (case map_of es c of
             None \<Rightarrow> (if cs = [] then Dir (es @ [(c, n)]) else t)
           | Some t' \<Rightarrow> Dir (map (\<lambda>(k, v). if k = c then (k, put cs n v) else (k, v)) es))
      | _ \<Rightarrow> t)"

fun remove :: "path \<Rightarrow> node \<Rightarrow> node" where
  "remove [] t = Dir []"
| "remove (c # cs) t =
     (case t of
        Dir es \<Rightarrow>
          (if cs = [] then Dir (filter (\<lambda>(k, v). k \<noteq> c) es)
           else Dir (map (\<lambda>(k, v). if k = c then (k, remove cs v) else (k, v)) es))
      | _ \<Rightarrow> t)"

text \<open>\<^verbatim>\<open>os.mkdir(p)\<close>.\<close>

definition os_mkdir :: "path \<Rightarrow> node \<Rightarrow> exn + node" where
  "os_mkdir p t =
     (case walk t p of
        Inr _ \<Rightarrow> Inl (os_error FileExistsError p)
      | Inl ENOTDIR \<Rightarrow> Inl (os_error NotADirectoryError p)
      | Inl ENOENT \<Rightarrow>
          (if is_dir t (butlast p) then Inr (put p (Dir []) t)
           else Inl (os_error FileNotFoundError p)))"

text \<open>
  \<^verbatim>\<open>Path.mkdir(parents, exist_ok)\<close> of pathlib: try \<^verbatim>\<open>os.mkdir\<close>; on
  FileNotFoundError create the parent (with parents) and try again; on any other
  OSError pass if \<^verbatim>\<open>exist_ok\<close> and the path is a directory. With both flags set it
  leaves the same tree as \<^verbatim>\<open>os.makedirs(p, exist_ok=True)\<close>, which the extraction uses
  for missing upper directories.
\<close>

function mkdir :: "path \<Rightarrow> bool \<Rightarrow> bool \<Rightarrow> node \<Rightarrow> (exn + unit) \<times> node" where
  "mkdir p parents exist_ok t =
     (case os_mkdir p t of
        Inr t' \<Rightarrow> (Inr (), t')
      | Inl e \<Rightarrow>
          (if exn_type e = FileNotFoundError then
             (if \<not> parents \<or> p = [] then (Inl e, t)
              else (case mkdir (butlast p) True True t of
                      (Inl e', t') \<Rightarrow> (Inl e', t')
                    | (Inr _, t') \<Rightarrow> mkdir p False exist_ok t'))
           else if \<not> exist_ok \<or> \<not> is_dir t p then (Inl e, t)
           else (Inr (), t)))"
  by pat_completeness auto
termination
  by (relation "measure (\<lambda>(p, parents, exist_ok, t). 2 * length p + (if parents then 1 else 0))")
     auto

text \<open>
  \<^verbatim>\<open>open(p, "wb")\<close>, writing \<open>data\<close>, and closing: the file is created or truncated. Data
  written to a special file goes to the device and leaves the tree as it is.
\<close>

definition write_file :: "path \<Rightarrow> bytes \<Rightarrow> node \<Rightarrow> exn + node" where
  "write_file p data t =
     (case walk t p of
        Inr (Dir _) \<Rightarrow> Inl (os_error IsADirectoryError p)
      | Inr (File _) \<Rightarrow> Inr (put p (File data) t)
      | Inr Special \<Rightarrow> Inr t
      | Inl ENOTDIR \<Rightarrow> Inl (os_error NotADirectoryError p)
      | Inl ENOENT \<Rightarrow>
          (if is_dir t (butlast p) then Inr (put p (File data) t)
           else Inl (os_error FileNotFoundError p)))"

text \<open>\<^verbatim>\<open>open(p, "rb")\<close>: the content to be read. A special file reads as empty.\<close>

definition open_rb :: "path \<Rightarrow> node \<Rightarrow> exn + bytes" where
  "open_rb p t =
     (case walk t p of
        Inr (File c) \<Rightarrow> Inr c
      | Inr Special \<Rightarrow> Inr []
      | Inr (Dir _) \<Rightarrow> Inl (os_error IsADirectoryError p)
      | Inl ENOTDIR \<Rightarrow> Inl (os_error NotADirectoryError p)
      | Inl ENOENT \<Rightarrow> Inl (os_error FileNotFoundError p))"

text \<open>\<^verbatim>\<open>Path.unlink()\<close>.\<close>

definition unlink :: "path \<Rightarrow> node \<Rightarrow> (exn + unit) \<times> node" where
  "unlink p t =
     (case walk t p of
        Inr (Dir _) \<Rightarrow> (Inl (os_error IsADirectoryError p), t)
      | Inr _ \<Rightarrow> (Inr (), remove p t)
      | Inl ENOTDIR \<Rightarrow> (Inl (os_error NotADirectoryError p), t)
      | Inl ENOENT \<Rightarrow> (Inl (os_error FileNotFoundError p), t))"

text \<open>
  \<^verbatim>\<open>Path.iterdir()\<close>, consumed by \<^verbatim>\<open>any\<close>: the children of a directory, an error for
  anything else.
\<close>

definition iterdir :: "path \<Rightarrow> node \<Rightarrow> exn + path list" where
  "iterdir p t =
     (case walk t p of
        Inr (Dir es) \<Rightarrow> Inr (map (\<lambda>(c, n). p @ [c]) es)
      | Inr _ \<Rightarrow> Inl (os_error NotADirectoryError p)
      | Inl ENOTDIR \<Rightarrow> Inl (os_error NotADirectoryError p)
      | Inl ENOENT \<Rightarrow> Inl (os_error FileNotFoundError p))"

text \<open>
  \<^verbatim>\<open>shutil.rmtree(p, ignore_errors)\<close>: a directory goes with all its contents; anything
  else is an error, which \<^verbatim>\<open>ignore_errors=True\<close> swallows. The root itself cannot be
  removed: its contents go and the final \<^verbatim>\<open>rmdir\<close> fails.
\<close>

definition rmtree :: "path \<Rightarrow> bool \<Rightarrow> node \<Rightarrow> (exn + unit) \<times> node" where
  "rmtree p ignore_errors t =
     (case walk t p of
        Inr (Dir _) \<Rightarrow>
          (if p = [] then ((if ignore_errors then Inr () else Inl (os_error OSError p)), remove p t)
           else (Inr (), remove p t))
      | Inr _ \<Rightarrow> ((if ignore_errors then Inr () else Inl (os_error NotADirectoryError p)), t)
      | Inl ENOTDIR \<Rightarrow> ((if ignore_errors then Inr () else Inl (os_error NotADirectoryError p)), t)
      | Inl ENOENT \<Rightarrow> ((if ignore_errors then Inr () else Inl (os_error FileNotFoundError p)), t))"

section \<open>The environment\<close>

text \<open>
  What the program takes from outside: the platform's cache home (resolved by
  \<^verbatim>\<open>platformdirs\<close>), what the registry answers to a request, the SHA-1
  accumulator of \<^verbatim>\<open>hashlib\<close>, the reader of \<^verbatim>\<open>tarfile\<close> that turns the
  bytes of an archive into its members, and whether
  \<^verbatim>\<open>TarFile.extract\<close> has the \<^verbatim>\<open>filter\<close> parameter (it has on Python 3.12 and
  on the patched releases of older versions).
\<close>

text \<open>
  A response: \<^verbatim>\<open>urlopen\<close> raises, or it delivers bytes and may raise after them
  (the connection breaks while \<^verbatim>\<open>copyfileobj\<close> is streaming).
\<close>

datatype response = Refused exn | Stream bytes "exn option"

text \<open>
  An archive member. Its name is already split at the separators, with
  \<^verbatim>\<open>..\<close> as a component of its own; \<open>absolute\<close> says that the name starts with a
  slash. Link members are not modelled.
\<close>

datatype seg = Seg string | DotDot

datatype member_type = REGTYPE | DIRTYPE | CHRTYPE | BLKTYPE | FIFOTYPE

record member =
  name :: "seg list"
  absolute :: bool
  mtype :: member_type
  content :: bytes

record 'h world =
  cache_home :: path
  urlopen :: "string \<Rightarrow> response"
  sha1_new :: 'h
  sha1_update :: "'h \<Rightarrow> bytes \<Rightarrow> 'h"
  sha1_hexdigest :: "'h \<Rightarrow> string"
  tar_open :: "bytes \<Rightarrow> exn + member list"
  supports_filter :: bool

text \<open>The state the program acts on: the file system and the requests sent so far.\<close>

record state =
  fs :: node
  requests :: "string list"

definition and_then ::
  "(exn + 'a) \<times> 's \<Rightarrow> ('a \<Rightarrow> 's \<Rightarrow> (exn + 'b) \<times> 's) \<Rightarrow> (exn + 'b) \<times> 's" where
  "and_then r f = (case r of (Inl e, s) \<Rightarrow> (Inl e, s) | (Inr v, s) \<Rightarrow> f v s)"

definition on_fs :: "(node \<Rightarrow> (exn + 'a) \<times> node) \<Rightarrow> state \<Rightarrow> (exn + 'a) \<times> state" where
  "on_fs f s = (case f (fs s) of (r, t) \<Rightarrow> (r, s\<lparr>fs := t\<rparr>))"

section \<open>The module\<close>

definition VERSION :: string where
  "VERSION = ''0.54.0''"

definition EXPECTED_SHA1 :: string where
  "EXPECTED_SHA1 = ''c0d6ebb46b83f1bef6f67f6aa471e38ba7ef8231''"

text \<open>
  \<^verbatim>\<open>user_cache_dir(appname, appauthor)\<close> of platformdirs, in the layout of Linux and
  macOS: the application's directory directly below the cache home.
\<close>

definition user_cache_dir :: "'h world \<Rightarrow> string \<Rightarrow> path" where
  "user_cache_dir w appname = cache_home w @ [appname]"

definition CACHE_DIR :: "'h world \<Rightarrow> path" where
  "CACHE_DIR w = user_cache_dir w ''monaco-assets''"

subsection \<open>\<^verbatim>\<open>_download_file\<close>\<close>

definition download_file :: "'h world \<Rightarrow> string \<Rightarrow> path \<Rightarrow> state \<Rightarrow> (exn + unit) \<times> state" where
  "download_file w url filename s =
     (let s1 = s\<lparr>requests := requests s @ [url]\<rparr> in
      case urlopen w url of
        Refused e \<Rightarrow> (Inl e, s1)
      | Stream data broken \<Rightarrow>
          (case write_file filename data (fs s1) of
             Inl e \<Rightarrow> (Inl e, s1)
           | Inr t \<Rightarrow>
               (case broken of
                  None \<Rightarrow> (Inr (), s1\<lparr>fs := t\<rparr>)
                | Some e \<Rightarrow> (Inl e, s1\<lparr>fs := t\<rparr>))))"

subsection \<open>\<^verbatim>\<open>_verify_file_hash\<close>\<close>

text \<open>
  The loop \<^verbatim>\<open>for chunk in iter(lambda: f.read(4096), b""): sha1_hash.update(chunk)\<close>:
  \<open>rest\<close> is what the file object has not delivered yet; a read of \<open>n\<close> bytes
  delivers the next \<open>n\<close>, or what is left; the loop ends at the first empty read.
\<close>

function hash_chunks :: "('h \<Rightarrow> bytes \<Rightarrow> 'h) \<Rightarrow> nat \<Rightarrow> 'h \<Rightarrow> bytes \<Rightarrow> 'h" where
  "hash_chunks upd n h rest =
     (let chunk = take n rest in
      if chunk = [] then h else hash_chunks upd n (upd h chunk) (drop n rest))"
  by pat_completeness auto
termination
  by (relation "measure (\<lambda>(upd, n, h, rest). length rest)") auto

definition verify_file_hash :: "'h world \<Rightarrow> path \<Rightarrow> string \<Rightarrow> node \<Rightarrow> exn + bool" where
  "verify_file_hash w filename expected_sha1 t =
     (case open_rb filename t of
        Inl e \<Rightarrow> Inl e
      | Inr data \<Rightarrow>
          (let sha1_hash = hash_chunks (sha1_update w) 4096 (sha1_new w) data;
               actual_sha1 = sha1_hexdigest w sha1_hash
           in Inr (actual_sha1 = expected_sha1)))"

subsection \<open>\<^verbatim>\<open>TarFile.extract\<close>\<close>

text \<open>
  The library call the module relies on, after the documentation of
  \<^verbatim>\<open>tarfile\<close>. Joining a member's name to the destination and letting the system
  resolve it: an absolute name replaces the destination, \<^verbatim>\<open>..\<close> steps to the parent
  (the root is its own parent).
\<close>

fun resolve :: "path \<Rightarrow> seg list \<Rightarrow> path" where
  "resolve base [] = base"
| "resolve base (Seg c # r) = resolve (base @ [c]) r"
| "resolve base (DotDot # r) = resolve (butlast base) r"

definition join :: "path \<Rightarrow> member \<Rightarrow> path" where
  "join dest m = (if absolute m then resolve [] (name m) else resolve dest (name m))"

text \<open>
  The \<^verbatim>\<open>data\<close> filter: leading slashes are stripped from the name; a name that
  resolves outside the destination is refused; of the member types modelled, only
  regular files and directories pass.
\<close>

datatype tar_filter = DataFilter

definition data_filter :: "member \<Rightarrow> path \<Rightarrow> exn + member" where
  "data_filter m dest =
     (let m' = m\<lparr>absolute := False\<rparr> in
      if \<not> prefix dest (join dest m') then
        Inl (Exn OutsideDestinationError ''member would be extracted outside the destination'' None)
      else if mtype m' \<noteq> REGTYPE \<and> mtype m' \<noteq> DIRTYPE then
        Inl (Exn SpecialFileError ''member is a special file'' None)
      else Inr m')"

text \<open>
  Writing one member at its target path: missing upper directories are created, then
  the member is made according to its type. A directory that is already there is
  accepted; a device or FIFO is made with \<^verbatim>\<open>mknod\<close>, which refuses an existing path.
\<close>

definition mknod :: "path \<Rightarrow> node \<Rightarrow> exn + node" where
  "mknod p t =
     (case walk t p of
        Inr _ \<Rightarrow> Inl (os_error FileExistsError p)
      | Inl ENOTDIR \<Rightarrow> Inl (os_error NotADirectoryError p)
      | Inl ENOENT \<Rightarrow>
          (if is_dir t (butlast p) then Inr (put p Special t)
           else Inl (os_error FileNotFoundError p)))"

definition makedir :: "path \<Rightarrow> node \<Rightarrow> (exn + unit) \<times> node" where
  "makedir p t =
     (case os_mkdir p t of
        Inr t' \<Rightarrow> (Inr (), t')
      | Inl e \<Rightarrow>
          (if exn_type e = FileExistsError \<and> is_dir t p then (Inr (), t) else (Inl e, t)))"

definition extract_member :: "member \<Rightarrow> path \<Rightarrow> node \<Rightarrow> (exn + unit) \<times> node" where
  "extract_member m targetpath t =
     (let upperdirs = butlast targetpath in
      and_then (if \<not> exists t upperdirs then mkdir upperdirs True True t else (Inr (), t))
        (\<lambda>_ t1.
           if mtype m = REGTYPE then
             (case write_file targetpath (content m) t1 of
                Inl e \<Rightarrow> (Inl e, t1) | Inr t2 \<Rightarrow> (Inr (), t2))
           else if mtype m = DIRTYPE then makedir targetpath t1
           else
             (case mknod targetpath t1 of
                Inl e \<Rightarrow> (Inl e, t1) | Inr t2 \<Rightarrow> (Inr (), t2))))"

definition tar_extract ::
  "member \<Rightarrow> path \<Rightarrow> tar_filter option \<Rightarrow> node \<Rightarrow> (exn + unit) \<times> node" where
  "tar_extract m dest flt t =
     (case flt of
        None \<Rightarrow> extract_member m (join dest m) t
      | Some DataFilter \<Rightarrow>
          (case data_filter m dest of
             Inl e \<Rightarrow> (Inl e, t)
           | Inr m' \<Rightarrow> extract_member m' (join dest m') t))"

subsection \<open>\<^verbatim>\<open>_extract_tgz\<close>\<close>

text \<open>The loop over \<^verbatim>\<open>tar.getmembers()\<close>; an exception ends it.\<close>

fun extract_members :: "bool \<Rightarrow> path \<Rightarrow> member list \<Rightarrow> node \<Rightarrow> (exn + unit) \<times> node" where
  "extract_members flt dest [] t = (Inr (), t)"
| "extract_members flt dest (m # ms) t =
     and_then
       (if flt then tar_extract m dest (Some DataFilter) t
        else tar_extract m dest None t)
       (\<lambda>_ t'. extract_members flt dest ms t')"

definition extract_tgz :: "'h world \<Rightarrow> path \<Rightarrow> node \<Rightarrow> (exn + unit) \<times> node" where
  "extract_tgz w tgz t =
     (let dest = butlast tgz in
      case open_rb tgz t of
        Inl e \<Rightarrow> (Inl e, t)
      | Inr data \<Rightarrow>
          (case tar_open w data of
             Inl e \<Rightarrow> (Inl e, t)
           | Inr members \<Rightarrow> extract_members (supports_filter w) dest members t))"

subsection \<open>\<^verbatim>\<open>get_path\<close>\<close>

definition assets_dir :: "'h world \<Rightarrow> path" where
  "assets_dir w = CACHE_DIR w @ [''monaco-editor-'' @ VERSION]"

definition package_dir :: "'h world \<Rightarrow> path" where
  "package_dir w = assets_dir w @ [''package'']"

definition package :: string where
  "package = ''monaco-editor''"

definition tgz :: string where
  "tgz = package @ ''-'' @ VERSION @ ''.tgz''"

definition url :: string where
  "url = ''https://registry.npmjs.org/'' @ package @ ''/-/'' @ tgz"

definition tgz_file :: "'h world \<Rightarrow> path" where
  "tgz_file w = assets_dir w @ [tgz]"

text \<open>The body of the \<^verbatim>\<open>try\<close> block.\<close>

definition provision :: "'h world \<Rightarrow> state \<Rightarrow> (exn + path) \<times> state" where
  "provision w s =
     and_then (on_fs (mkdir (assets_dir w) True True) s) (\<lambda>_ s1.
     and_then (download_file w url (tgz_file w) s1) (\<lambda>_ s2.
       (case verify_file_hash w (tgz_file w) EXPECTED_SHA1 (fs s2) of
          Inl e \<Rightarrow> (Inl e, s2)
        | Inr ok \<Rightarrow>
            if \<not> ok then
              (Inl (Exn ValueError (''Hash verification failed for '' @ path_str (tgz_file w)) None),
               s2)
            else
              and_then (on_fs (extract_tgz w (tgz_file w)) s2) (\<lambda>_ s3.
              and_then (on_fs (unlink (tgz_file w)) s3) (\<lambda>_ s4.
                (Inr (package_dir w), s4))))))"

text \<open>
  The \<^verbatim>\<open>except Exception as e\<close> handler: remove the version directory if it exists,
  ignoring errors, and raise a RuntimeError from \<open>e\<close>.
\<close>

definition handler :: "'h world \<Rightarrow> exn \<Rightarrow> state \<Rightarrow> (exn + path) \<times> state" where
  "handler w e s =
     (let s' = (if exists (fs s) (assets_dir w)
                then snd (on_fs (rmtree (assets_dir w) True) s) else s)
      in (Inl (Exn RuntimeError (''Failed to download Monaco Editor assets: '' @ exn_str e) (Some e)),
          s'))"

definition get_path :: "'h world \<Rightarrow> state \<Rightarrow> (exn + path) \<times> state" where
  "get_path w s =
     (let cached =
        (if exists (fs s) (package_dir w) then
           (case iterdir (package_dir w) (fs s) of
              Inl e \<Rightarrow> Inl e
            | Inr children \<Rightarrow> Inr (children \<noteq> []))
         else Inr False)
      in case cached of
           Inl e \<Rightarrow> (Inl e, s)
         | Inr True \<Rightarrow> (Inr (package_dir w), s)
         | Inr False \<Rightarrow>
             (case provision w s of
                (Inr p, s') \<Rightarrow> (Inr p, s')
              | (Inl e, s') \<Rightarrow> handler w e s'))"

subsection \<open>\<^verbatim>\<open>clear_cache\<close>\<close>

definition clear_cache :: "'h world \<Rightarrow> state \<Rightarrow> (exn + unit) \<times> state" where
  "clear_cache w s =
     (if exists (fs s) (CACHE_DIR w) then on_fs (rmtree (CACHE_DIR w) False) s
      else (Inr (), s))"

subsection \<open>Archives that unpack into \<^verbatim>\<open>package/\<close>\<close>



text \<open>The digest \<^verbatim>\<open>_verify_file_hash\<close> computes for a file with the given content.\<close>

definition file_digest :: "'h world \<Rightarrow> bytes \<Rightarrow> string" where
  "file_digest w data = sha1_hexdigest w (hash_chunks (sha1_update w) 4096 (sha1_new w) data)"


subsection \<open>What an exception tells\<close>

text \<open>
  A value is carried by an exception when it occurs in the message of the exception or
  of one of the exceptions it was raised from.
\<close>

fun carries :: "exn \<Rightarrow> string \<Rightarrow> bool" where
  "carries (Exn k msg c) v =
     (sublist v msg \<or> (case c of None \<Rightarrow> False | Some e \<Rightarrow> carries e v))"

text \<open>The answer of the cache check at the head of \<^verbatim>\<open>get_path\<close> is False.\<close>

definition not_cached :: "'h world \<Rightarrow> state \<Rightarrow> bool" where
  "not_cached w s =
     (\<not> exists (fs s) (package_dir w) \<or> iterdir (package_dir w) (fs s) = Inr [])"

section \<open>Sample environments\<close>

text \<open>
  Concrete environments on which the theorems below are exercised: a registry that
  serves one small archive, an accumulator that keeps the bytes it was fed, a digest
  that gives the pinned value for that archive alone, and a reader that knows it.
\<close>

definition sample_archive :: bytes where
  "sample_archive = [0x1f, 0x8b, 0x08]"

definition sample_members :: "member list" where
  "sample_members =
     [\<lparr>name = [Seg ''package''], absolute = False, mtype = DIRTYPE, content = []\<rparr>,
      \<lparr>name = [Seg ''package'', Seg ''package.json''], absolute = False, mtype = REGTYPE,
       content = [0x7b, 0x7d]\<rparr>]"

definition sample_world :: "bytes world" where
  "sample_world =
     \<lparr>cache_home = [''home'', ''u'', ''.cache''],
      urlopen = (\<lambda>u. if u = url then Stream sample_archive None
                     else Refused (Exn URLError ''HTTP Error 404: Not Found'' None)),
      sha1_new = [],
      sha1_update = (\<lambda>h c. h @ c),
      sha1_hexdigest = (\<lambda>h. if h = sample_archive then EXPECTED_SHA1
                            else ''da39a3ee5e6b4b0d3255bfef95601890afd80709''),
      tar_open = (\<lambda>d. if d = sample_archive then Inr sample_members
                      else Inl (Exn ReadError ''not a gzip file'' None)),
      supports_filter = True\<rparr>"

text \<open>A fresh account: the home directory exists, the cache home does not.\<close>

definition fresh_state :: state where
  "fresh_state = \<lparr>fs = Dir [(''home'', Dir [(''u'', Dir [])])], requests = []\<rparr>"

text \<open>The cache after a successful run.\<close>

definition cached_state :: state where
  "cached_state =
     \<lparr>fs = Dir [(''home'', Dir [(''u'', Dir [(''.cache'', Dir [(''monaco-assets'',
             Dir [(''monaco-editor-0.54.0'',
               Dir [(''package'', Dir [(''package.json'', File [0x7b, 0x7d])])])])])])])],
      requests = [url]\<rparr>"

text \<open>A cache in which the package path is a regular file, and one in which it is an empty directory.\<close>

definition clobbered_state :: state where
  "clobbered_state =
     \<lparr>fs = Dir [(''home'', Dir [(''u'', Dir [(''.cache'', Dir [(''monaco-assets'',
             Dir [(''monaco-editor-0.54.0'', Dir [(''package'', File [0x00])])])])])])],
      requests = []\<rparr>"

definition hollow_state :: state where
  "hollow_state =
     \<lparr>fs = Dir [(''home'', Dir [(''u'', Dir [(''.cache'', Dir [(''monaco-assets'',
             Dir [(''monaco-editor-0.54.0'', Dir [(''package'', Dir [])])])])])])],
      requests = []\<rparr>"

text \<open>A registry that serves something else than the pinned archive.\<close>

definition tampered_world :: "bytes world" where
  "tampered_world = sample_world\<lparr>urlopen := (\<lambda>u. Stream [0x00] None)\<rparr>"

text \<open>A registry that cannot be reached.\<close>

definition offline_world :: "bytes world" where
  "offline_world =
     sample_world\<lparr>urlopen := (\<lambda>u. Refused (Exn URLError ''<urlopen error timed out>'' None))\<rparr>"





section \<open>Facts about the file system\<close>

subsection \<open>Paths and the two tree updates\<close>

lemma map_of_map_upd:
  "map_of (map (\<lambda>(k, v). if k = c then (k, f v) else (k, v)) es) k' =
     (if k' = c then map_option f (map_of es c) else map_of es k')"
  by (induction es) auto

lemma map_of_filter_neq:
  "map_of (filter (\<lambda>(k, v). k \<noteq> c) es) k' = (if k' = c then None else map_of es k')"
  by (induction es) auto

lemma map_of_snoc_fresh:
  "map_of es c = None \<Longrightarrow> map_of (es @ [(c, n)]) k' = (if k' = c then Some n else map_of es k')"
  by (induction es) auto

lemma kind_at_Nil [simp]: "kind_at t [] = Some (kind_of t)"
  by (simp add: kind_at_def)

lemma kind_at_Cons:
  "kind_at t (c # cs) =
     (case t of Dir es \<Rightarrow> (case map_of es c of None \<Rightarrow> None | Some n \<Rightarrow> kind_at n cs) | _ \<Rightarrow> None)"
  by (simp add: kind_at_def split: node.splits option.splits)

lemma is_dir_kind: "is_dir t p \<longleftrightarrow> kind_at t p = Some Directory"
  by (auto simp: is_dir_def kind_at_def split: sum.splits node.splits)

lemma exists_kind: "exists t p \<longleftrightarrow> kind_at t p \<noteq> None"
  by (auto simp: exists_def kind_at_def split: sum.splits)

lemma kind_at_remove:
  "p \<noteq> [] \<Longrightarrow> kind_at (remove p t) q = (if prefix p q then None else kind_at t q)"
proof (induction p arbitrary: t q)
  case Nil
  then show ?case by simp
next
  case (Cons c cs)
  show ?case
  proof (cases q)
    case Nil
    then show ?thesis by (cases t) auto
  next
    case (Cons d ds)
    show ?thesis
    proof (cases t)
      case (Dir es)
      show ?thesis
      proof (cases "cs = []")
        case True
        then show ?thesis using Dir Cons
          by (auto simp: kind_at_Cons map_of_filter_neq split: option.splits)
      next
        case False
        then show ?thesis using Dir Cons Cons.IH[OF False]
          by (auto simp: kind_at_Cons map_of_map_upd split: option.splits)
      qed
    qed (simp_all add: kind_at_Cons Cons)
  qed
qed

lemma kind_at_put:
  "p \<noteq> [] \<Longrightarrow> kind_at t (butlast p) = Some Directory \<Longrightarrow>
   kind_at (put p n t) q = (if prefix p q then kind_at n (drop (length p) q) else kind_at t q)"
proof (induction p arbitrary: t q)
  case Nil
  then show ?case by simp
next
  case (Cons c cs)
  show ?case
  proof (cases "cs = []")
    case True
    with Cons.prems obtain es where t: "t = Dir es" by (cases t) auto
    show ?thesis
    proof (cases q)
      case Nil
      then show ?thesis using t True by (auto split: option.splits)
    next
      case (Cons d ds)
      then show ?thesis using t True
        by (auto simp: kind_at_Cons map_of_map_upd map_of_snoc_fresh split: option.splits)
    qed
  next
    case False
    with Cons.prems obtain es n' where t: "t = Dir es" and n': "map_of es c = Some n'"
      and sub: "kind_at n' (butlast cs) = Some Directory"
      by (cases t) (auto simp: kind_at_Cons split: option.splits)
    note IH = Cons.IH[OF False sub]
    show ?thesis
    proof (cases q)
      case Nil
      then show ?thesis using t n' by auto
    next
      case (Cons d ds)
      then show ?thesis using t n' IH
        by (auto simp: kind_at_Cons map_of_map_upd split: option.splits)
    qed
  qed
qed

lemma kind_at_append:
  "kind_at t (p @ q) = (case walk t p of Inl e \<Rightarrow> None | Inr n \<Rightarrow> kind_at n q)"
  by (induction p arbitrary: t) (auto simp: kind_at_Cons kind_at_def split: node.splits option.splits sum.splits)

lemma walk_append:
  "walk t (p @ q) = (case walk t p of Inl e \<Rightarrow> Inl e | Inr n \<Rightarrow> walk n q)"
  by (induction p arbitrary: t) (auto split: node.splits option.splits sum.splits)

text \<open>Below anything that is not a directory there is nothing.\<close>

lemma kind_at_below:
  assumes "prefix p q" "p \<noteq> q" "kind_at t q \<noteq> None"
  shows "kind_at t p = Some Directory"
proof -
  from assms obtain c r where q: "q = p @ c # r"
    by (cases "drop (length p) q") (auto simp: prefix_def)
  with assms(3) obtain n where n: "walk t p = Inr n" and "kind_at n (c # r) \<noteq> None"
    by (auto simp: kind_at_append split: sum.splits)
  then obtain es where "n = Dir es" by (cases n) (auto simp: kind_at_Cons)
  with n show ?thesis by (simp add: kind_at_def)
qed

lemma kind_at_None_below:
  assumes "prefix p q" "kind_at t p = None"
  shows "kind_at t q = None"
proof -
  from assms(1) obtain zs where q: "q = p @ zs" by (auto simp: prefix_def)
  from assms(2) obtain e where "walk t p = Inl e"
    by (auto simp: kind_at_def split: sum.splits)
  then show ?thesis by (simp add: q kind_at_append)
qed

lemma walk_ENOENT_kind: "walk t p = Inl e \<Longrightarrow> kind_at t p = None"
  by (simp add: kind_at_def)

lemma butlast_prefix: "prefix (butlast p) p"
  by (simp add: prefixeq_butlast)

subsection \<open>Making directories and writing files\<close>

text \<open>What a successful \<open>os.mkdir\<close> changes.\<close>

lemma os_mkdir_Inr:
  assumes "os_mkdir p t = Inr t'"
  shows "kind_at t p = None \<and> kind_at t' q = (if q = p then Some Directory else kind_at t q)"
proof -
  from assms have w: "walk t p = Inl ENOENT" and d: "is_dir t (butlast p)"
    and t': "t' = put p (Dir []) t"
    by (auto simp: os_mkdir_def split: sum.splits errno.splits if_splits)
  from w have none: "kind_at t p = None" by (rule walk_ENOENT_kind)
  from w have ne: "p \<noteq> []" by auto
  have "kind_at t' q = (if prefix p q then kind_at (Dir []) (drop (length p) q) else kind_at t q)"
    unfolding t' using kind_at_put[OF ne] d by (simp add: is_dir_kind)
  moreover have "prefix p q \<Longrightarrow> q \<noteq> p \<Longrightarrow> kind_at (Dir []) (drop (length p) q) = None"
    by (cases "drop (length p) q") (auto simp: kind_at_Cons prefix_def)
  moreover have "prefix p q \<Longrightarrow> q \<noteq> p \<Longrightarrow> kind_at t q = None"
    using none kind_at_None_below by blast
  ultimately show ?thesis using none by auto
qed

text \<open>
  \<open>mkdir\<close> changes the tree only by turning missing prefixes of the path into
  directories.
\<close>

lemma mkdir_effect:
  "mkdir p parents exist_ok t = (r, t') \<Longrightarrow>
   kind_at t' q = kind_at t q \<or> (prefix q p \<and> kind_at t q = None \<and> kind_at t' q = Some Directory)"
proof (induction p parents exist_ok t arbitrary: r t' rule: mkdir.induct)
  case (1 p parents exist_ok t)
  show ?case
  proof (cases "os_mkdir p t")
    case (Inr t1)
    with "1.prems" have "t' = t1" by simp
    with os_mkdir_Inr[OF Inr, of q] show ?thesis by auto
  next
    case (Inl e)
    show ?thesis
    proof (cases "exn_type e = FileNotFoundError \<and> \<not> (\<not> parents \<or> p = [])")
      case False
      with Inl "1.prems" have "t' = t" by (auto split: if_splits)
      then show ?thesis by simp
    next
      case True
      obtain r1 t1 where m1: "mkdir (butlast p) True True t = (r1, t1)" by force
      from True have c1: "exn_type e = FileNotFoundError" and c2: "\<not> (\<not> parents \<or> p = [])" by auto
      have s1: "kind_at t1 q = kind_at t q \<or>
                (prefix q (butlast p) \<and> kind_at t q = None \<and> kind_at t1 q = Some Directory)"
        using "1.IH"(1)[OF Inl c1 c2 m1] .
      show ?thesis
      proof (cases r1)
        case (Inl e1)
        with m1 True \<open>os_mkdir p t = Inl e\<close> "1.prems" have "t' = t1" by simp
        with s1 show ?thesis using butlast_prefix[of p] by (auto intro: prefix_order.trans)
      next
        case (Inr u)
        with m1 True \<open>os_mkdir p t = Inl e\<close> "1.prems"
        have m2: "mkdir p False exist_ok t1 = (r, t')" by simp
        have s2: "kind_at t' q = kind_at t1 q \<or>
                (prefix q p \<and> kind_at t1 q = None \<and> kind_at t' q = Some Directory)"
          using "1.IH"(2)[OF \<open>os_mkdir p t = Inl e\<close> c1 c2 m1[symmetric] _ m2] Inr by simp
        from s1 s2 show ?thesis using butlast_prefix[of p] by (auto intro: prefix_order.trans)
      qed
    qed
  qed
qed

lemma mkdir_success:
  "mkdir p parents exist_ok t = (Inr u, t') \<Longrightarrow> kind_at t' p = Some Directory"
proof (induction p parents exist_ok t arbitrary: u t' rule: mkdir.induct)
  case (1 p parents exist_ok t)
  show ?case
  proof (cases "os_mkdir p t")
    case (Inr t1)
    with "1.prems" have "t' = t1" by simp
    with os_mkdir_Inr[OF Inr, of p] show ?thesis by auto
  next
    case (Inl e)
    show ?thesis
    proof (cases "exn_type e = FileNotFoundError")
      case False
      with Inl "1.prems" have "t' = t" "is_dir t p" by (auto split: if_splits)
      then show ?thesis by (simp add: is_dir_kind)
    next
      case True
      with Inl "1.prems" have c2: "\<not> (\<not> parents \<or> p = [])" by (auto split: if_splits)
      obtain r1 t1 where m1: "mkdir (butlast p) True True t = (r1, t1)" by force
      with Inl True c2 "1.prems" obtain u1 where r1: "r1 = Inr u1"
        and m2: "mkdir p False exist_ok t1 = (Inr u, t')"
        by (cases r1) auto
      show ?thesis
        using "1.IH"(2)[OF Inl True c2 m1[symmetric] _ m2] r1 by simp
    qed
  qed
qed

lemma kind_at_leaf_below:
  assumes "prefix p q" "q \<noteq> p"
  shows "kind_at (File d) (drop (length p) q) = None"
    and "kind_at Special (drop (length p) q) = None"
    and "kind_at (Dir []) (drop (length p) q) = None"
proof -
  from assms obtain c r where "drop (length p) q = c # r"
    by (cases "drop (length p) q") (auto simp: prefix_def)
  then show "kind_at (File d) (drop (length p) q) = None"
    and "kind_at Special (drop (length p) q) = None"
    and "kind_at (Dir []) (drop (length p) q) = None"
    by (simp_all add: kind_at_Cons)
qed

lemma butlast_neq: "p \<noteq> [] \<Longrightarrow> p \<noteq> butlast p"
  by (metis length_butlast diff_less length_greater_0_conv less_numeral_extra(1) less_irrefl)

lemma not_dir_below:
  assumes "kind_at t p \<noteq> Some Directory" "prefix p q" "q \<noteq> p"
  shows "kind_at t q = None"
  using assms kind_at_below by blast

text \<open>Installing a leaf where there was no directory changes that one path only.\<close>

lemma kind_at_put_leaf:
  assumes "p \<noteq> []" "is_dir t (butlast p)" "kind_at t p \<noteq> Some Directory"
    and "n = File d \<or> n = Special \<or> n = Dir []"
  shows "kind_at (put p n t) q = (if q = p then Some (kind_of n) else kind_at t q)"
proof -
  have eq: "kind_at (put p n t) q =
            (if prefix p q then kind_at n (drop (length p) q) else kind_at t q)"
    using kind_at_put[OF assms(1)] assms(2) by (simp add: is_dir_kind)
  show ?thesis
  proof (cases "prefix p q")
    case False
    then have "q \<noteq> p" by auto
    with False eq show ?thesis by simp
  next
    case True
    show ?thesis
    proof (cases "q = p")
      case True
      with eq show ?thesis by simp
    next
      case False
      have "kind_at n (drop (length p) q) = None"
        using assms(4) kind_at_leaf_below[OF True False] by auto
      moreover have "kind_at t q = None"
        by (rule not_dir_below[OF assms(3) True False])
      ultimately show ?thesis using eq True False by simp
    qed
  qed
qed

lemma walk_File_parent:
  assumes "walk t p = Inr n" "p \<noteq> []"
  shows "is_dir t (butlast p)"
proof -
  have "kind_at t p \<noteq> None" using assms(1) by (simp add: kind_at_def)
  moreover have "prefix (butlast p) p" by (rule butlast_prefix)
  moreover have "butlast p \<noteq> p" using butlast_neq[OF assms(2)] by simp
  ultimately have "kind_at t (butlast p) = Some Directory"
    using kind_at_below[of "butlast p" p t] by simp
  then show ?thesis by (simp add: is_dir_kind)
qed

lemma write_file_cases:
  assumes "write_file p d t = Inr t'"
  shows "(walk t p = Inr Special \<and> t' = t)
      \<or> (\<exists>c. walk t p = Inr (File c) \<and> t' = put p (File d) t)
      \<or> (walk t p = Inl ENOENT \<and> is_dir t (butlast p) \<and> t' = put p (File d) t)"
proof (cases "walk t p")
  case (Inl e)
  with assms show ?thesis by (cases e) (auto simp: write_file_def split: if_splits)
next
  case (Inr n)
  with assms show ?thesis by (cases n) (auto simp: write_file_def)
qed

lemma write_file_Inr:
  assumes "write_file p d t = Inr t'"
  shows "kind_at t p \<noteq> Some Directory"
    and "kind_at t' q = (if q = p \<and> kind_at t p \<noteq> Some SpecialFile then Some (RegFile d) else kind_at t q)"
proof -
  from write_file_cases[OF assms]
  consider (sp) "walk t p = Inr Special" "t' = t"
    | (fl) c where "walk t p = Inr (File c)" "t' = put p (File d) t"
    | (nw) "walk t p = Inl ENOENT" "is_dir t (butlast p)" "t' = put p (File d) t"
    by blast
  then show nd: "kind_at t p \<noteq> Some Directory"
    by cases (simp_all add: kind_at_def)
  from write_file_cases[OF assms]
  consider (sp) "walk t p = Inr Special" "t' = t"
    | (fl) c where "walk t p = Inr (File c)" "t' = put p (File d) t"
    | (nw) "walk t p = Inl ENOENT" "is_dir t (butlast p)" "t' = put p (File d) t"
    by blast
  then show "kind_at t' q = (if q = p \<and> kind_at t p \<noteq> Some SpecialFile then Some (RegFile d) else kind_at t q)"
  proof cases
    case sp
    then show ?thesis by (simp add: kind_at_def)
  next
    case fl
    show ?thesis
    proof (cases "p = []")
      case True
      then show ?thesis using fl by (cases q) (simp_all add: kind_at_def)
    next
      case False
      with fl have "is_dir t (butlast p)" using walk_File_parent by blast
      from kind_at_put_leaf[OF False this nd, where n="File d" and d=d and q=q] fl
      show ?thesis by (simp add: kind_at_def)
    qed
  next
    case nw
    then have ne: "p \<noteq> []" by auto
    from kind_at_put_leaf[OF ne nw(2) nd, where n="File d" and d=d and q=q] nw
    show ?thesis by (simp add: kind_at_def)
  qed
qed

lemma mknod_cases:
  assumes "mknod p t = Inr t'"
  shows "walk t p = Inl ENOENT \<and> is_dir t (butlast p) \<and> t' = put p Special t"
proof (cases "walk t p")
  case (Inl e)
  with assms show ?thesis by (cases e) (auto simp: mknod_def split: if_splits)
next
  case (Inr n)
  with assms show ?thesis by (simp add: mknod_def)
qed

lemma mknod_Inr:
  assumes "mknod p t = Inr t'"
  shows "kind_at t p = None \<and> kind_at t' q = (if q = p then Some SpecialFile else kind_at t q)"
proof -
  from mknod_cases[OF assms] have w: "walk t p = Inl ENOENT" and d: "is_dir t (butlast p)"
    and t': "t' = put p Special t" by simp_all
  from w have none: "kind_at t p = None" by (rule walk_ENOENT_kind)
  from w have ne: "p \<noteq> []" by auto
  have nd: "kind_at t p \<noteq> Some Directory" using none by simp
  from kind_at_put_leaf[OF ne d nd, where n=Special and q=q] none t' show ?thesis by simp
qed

lemma makedir_effect:
  assumes "makedir p t = (r, t')"
  shows "kind_at t' q = kind_at t q \<or> (q = p \<and> kind_at t q = None \<and> kind_at t' q = Some Directory)"
proof (cases "os_mkdir p t")
  case (Inl e)
  with assms have "t' = t" by (auto simp: makedir_def split: if_splits)
  then show ?thesis by simp
next
  case (Inr t1)
  with assms have "t' = t1" by (simp add: makedir_def)
  with os_mkdir_Inr[OF Inr, of q] show ?thesis by auto
qed


section \<open>Facts about extraction\<close>

text \<open>
  Extracting one member changes the tree only at prefixes of the target path, and
  never where a directory was.
\<close>

lemma extract_member_effect:
  assumes "extract_member m target t = (r, t')" "kind_at t' q \<noteq> kind_at t q"
  shows "prefix q target \<and> kind_at t q \<noteq> Some Directory"
proof -
  define up where "up = (if \<not> exists t (butlast target) then mkdir (butlast target) True True t else (Inr (), t))"
  obtain r1 t1 where up: "up = (r1, t1)" by force
  have s1: "kind_at t1 q = kind_at t q \<or>
            (prefix q (butlast target) \<and> kind_at t q = None \<and> kind_at t1 q = Some Directory)"
    using up mkdir_effect[of "butlast target" True True t r1 t1 q]
    by (auto simp: up_def split: if_splits)
  have pre: "prefix q (butlast target) \<Longrightarrow> prefix q target"
    using butlast_prefix[of target] by (auto intro: prefix_order.trans)
  show ?thesis
  proof (cases r1)
    case (Inl e)
    with assms(1) up have "t' = t1" by (simp add: extract_member_def and_then_def up_def Let_def)
    with s1 assms(2) pre show ?thesis by auto
  next
    case (Inr u)
    have s2: "kind_at t' q = kind_at t1 q \<or> (q = target \<and> kind_at t1 q \<noteq> Some Directory)"
    proof (cases "mtype m = REGTYPE")
      case True
      show ?thesis
      proof (cases "write_file target (content m) t1")
        case (Inl e)
        with True Inr assms(1) up have "t' = t1"
          by (simp add: extract_member_def and_then_def up_def Let_def)
        then show ?thesis by simp
      next
        case wr: (Inr t2)
        with True Inr assms(1) up have "t' = t2"
          by (simp add: extract_member_def and_then_def up_def Let_def)
        with write_file_Inr(1)[OF wr] write_file_Inr(2)[OF wr, of q] show ?thesis by auto
      qed
    next
      case False
      show ?thesis
      proof (cases "mtype m = DIRTYPE")
        case True
        with False Inr assms(1) up have "makedir target t1 = (r, t')"
          by (simp add: extract_member_def and_then_def up_def Let_def)
        from makedir_effect[OF this, of q] show ?thesis by auto
      next
        case nd: False
        show ?thesis
        proof (cases "mknod target t1")
          case (Inl e)
          with False nd Inr assms(1) up have "t' = t1"
            by (simp add: extract_member_def and_then_def up_def Let_def)
          then show ?thesis by simp
        next
          case mk: (Inr t2)
          with False nd Inr assms(1) up have "t' = t2"
            by (simp add: extract_member_def and_then_def up_def Let_def)
          with mknod_Inr[OF mk, of q] show ?thesis by auto
        qed
      qed
    qed
    from s1 s2 assms(2) pre show ?thesis by auto
  qed
qed




lemma tar_extract_effect:
  assumes "tar_extract m dest flt t = (r, t')" "kind_at t' q \<noteq> kind_at t q"
  shows "kind_at t q \<noteq> Some Directory"
    and "flt = Some DataFilter \<Longrightarrow> \<exists>target. prefix dest target \<and> prefix q target"
proof -
  show "kind_at t q \<noteq> Some Directory"
  proof (cases flt)
    case None
    with assms(1) have "extract_member m (join dest m) t = (r, t')" by (simp add: tar_extract_def)
    from extract_member_effect[OF this assms(2)] show ?thesis by simp
  next
    case (Some f)
    then have f: "flt = Some DataFilter" by (cases f) simp
    show ?thesis
    proof (cases "data_filter m dest")
      case (Inl e)
      with f assms show ?thesis by (simp add: tar_extract_def)
    next
      case (Inr m')
      with f assms(1) have "extract_member m' (join dest m') t = (r, t')"
        by (simp add: tar_extract_def)
      from extract_member_effect[OF this assms(2)] show ?thesis by simp
    qed
  qed
  show "\<exists>target. prefix dest target \<and> prefix q target" if f: "flt = Some DataFilter"
  proof (cases "data_filter m dest")
    case (Inl e)
    with f assms show ?thesis by (simp add: tar_extract_def)
  next
    case (Inr m')
    with f assms(1) have ex: "extract_member m' (join dest m') t = (r, t')"
      by (simp add: tar_extract_def)
    from Inr have "prefix dest (join dest m')"
      by (auto simp: data_filter_def Let_def split: if_splits)
    with extract_member_effect[OF ex assms(2)] show ?thesis by blast
  qed
qed

text \<open>No extraction, filtered or not, removes or replaces a directory.\<close>

lemma extract_members_dirs:
  "extract_members flt dest ms t = (r, t') \<Longrightarrow> kind_at t q = Some Directory \<Longrightarrow>
   kind_at t' q = Some Directory"
proof (induction ms arbitrary: t)
  case Nil
  then show ?case by simp
next
  case (Cons m ms)
  define f where "f = (if flt then Some DataFilter else None)"
  obtain r1 t1 where st: "tar_extract m dest f t = (r1, t1)" by force
  have k1: "kind_at t1 q = Some Directory"
    using tar_extract_effect(1)[OF st, of q] Cons.prems(2) by auto
  show ?case
  proof (cases r1)
    case (Inl e)
    with st Cons.prems(1) have "t' = t1" by (auto simp: and_then_def f_def split: if_splits)
    with k1 show ?thesis by simp
  next
    case (Inr u)
    with st Cons.prems(1) have "extract_members flt dest ms t1 = (r, t')"
      by (auto simp: and_then_def f_def split: if_splits)
    from Cons.IH[OF this k1] show ?thesis .
  qed
qed








section \<open>Facts about the other steps\<close>

lemma unlink_effect:
  assumes "p \<noteq> []" "unlink p t = (r, t')"
  shows "(\<forall>e. r = Inl e \<longrightarrow> t' = t) \<and>
         (\<forall>u. r = Inr u \<longrightarrow> kind_at t p \<noteq> Some Directory \<and>
                (\<forall>q. kind_at t' q = (if q = p then None else kind_at t q)))"
proof (cases "walk t p")
  case (Inl e)
  with assms(2) show ?thesis by (cases e) (auto simp: unlink_def)
next
  case (Inr n)
  show ?thesis
  proof (cases "\<exists>es. n = Dir es")
    case True
    with Inr assms(2) show ?thesis by (auto simp: unlink_def)
  next
    case False
    with Inr assms(2) have r: "r = Inr ()" and t': "t' = remove p t"
      by (cases n; simp add: unlink_def)+
    from False Inr have nd: "kind_at t p \<noteq> Some Directory"
      by (cases n) (auto simp: kind_at_def)
    have "kind_at t' q = (if q = p then None else kind_at t q)" for q
    proof (cases "prefix p q \<and> q \<noteq> p")
      case True
      then have "kind_at t q = None" using not_dir_below[OF nd] by blast
      with True show ?thesis by (simp add: t' kind_at_remove[OF assms(1)])
    next
      case False
      then show ?thesis by (auto simp: t' kind_at_remove[OF assms(1)])
    qed
    with r nd show ?thesis by simp
  qed
qed

lemma rmtree_effect:
  assumes "p \<noteq> []" "rmtree p ig t = (r, t')"
  shows "(kind_at t p = Some Directory \<longrightarrow>
            r = Inr () \<and> (\<forall>q. kind_at t' q = (if prefix p q then None else kind_at t q))) \<and>
         (kind_at t p \<noteq> Some Directory \<longrightarrow> t' = t \<and> (ig \<longrightarrow> r = Inr ()))"
proof (cases "walk t p")
  case (Inl e)
  with assms(2) show ?thesis by (cases e) (auto simp: rmtree_def kind_at_def)
next
  case (Inr n)
  with assms show ?thesis
    by (cases n) (auto simp: rmtree_def kind_at_def kind_at_remove[unfolded kind_at_def])
qed


lemma download_file_effect:
  assumes "download_file w u f s = (r, s')"
  shows "requests s' = requests s @ [u]"
    and "kind_at (fs s') q \<noteq> kind_at (fs s) q \<Longrightarrow> q = f \<and> kind_at (fs s) q \<noteq> Some Directory"
proof -
  show "requests s' = requests s @ [u]"
    using assms
    by (auto simp: download_file_def Let_def split: response.splits sum.splits option.splits)
  show "q = f \<and> kind_at (fs s) q \<noteq> Some Directory" if ch: "kind_at (fs s') q \<noteq> kind_at (fs s) q"
  proof (cases "urlopen w u")
    case (Refused e)
    with assms ch show ?thesis by (auto simp: download_file_def Let_def)
  next
    case (Stream d broken)
    show ?thesis
    proof (cases "write_file f d (fs s)")
      case (Inl e)
      with Stream assms ch show ?thesis by (auto simp: download_file_def Let_def)
    next
      case (Inr t)
      with Stream assms have "fs s' = t"
        by (auto simp: download_file_def Let_def split: option.splits)
      with write_file_Inr(1)[OF Inr] write_file_Inr(2)[OF Inr, of q] ch show ?thesis
        by (auto split: if_splits)
    qed
  qed
qed

text \<open>
  Chunked hashing: for an accumulator that, as \<^verbatim>\<open>hashlib\<close> documents, treats repeated
  updates as one update with the concatenation, the loop feeds the whole content.
\<close>

lemma hash_chunks_whole:
  "0 < n \<Longrightarrow> (\<forall>h. upd h [] = h) \<Longrightarrow> (\<forall>h a b. upd (upd h a) b = upd h (a @ b)) \<Longrightarrow>
   hash_chunks upd n h rest = upd h rest"
proof (induction upd n h rest rule: hash_chunks.induct)
  case (1 upd n h rest)
  show ?case
  proof (cases "take n rest = []")
    case True
    with "1.prems"(1) have "rest = []" by simp
    then show ?thesis using "1.prems"(2) by simp
  next
    case False
    have "hash_chunks upd n h rest = hash_chunks upd n (upd h (take n rest)) (drop n rest)"
      using False by (simp add: Let_def)
    also have "\<dots> = upd (upd h (take n rest)) (drop n rest)"
      using "1.IH"[OF refl False "1.prems"] .
    also have "\<dots> = upd h rest" using "1.prems"(3) by simp
    finally show ?thesis .
  qed
qed

lemma os_mkdir_Inl:
  assumes "os_mkdir p t = Inl e"
  shows "(e = os_error FileExistsError p \<and> kind_at t p \<noteq> None)
       \<or> (e = os_error NotADirectoryError p \<and> walk t p = Inl ENOTDIR)
       \<or> (e = os_error FileNotFoundError p \<and> walk t p = Inl ENOENT \<and> \<not> is_dir t (butlast p))"
proof (cases "walk t p")
  case (Inl er)
  with assms show ?thesis by (cases er) (auto simp: os_mkdir_def split: if_splits)
next
  case (Inr n)
  with assms show ?thesis by (auto simp: os_mkdir_def kind_at_def)
qed

lemma os_error_type [simp]: "exn_type (os_error k p) = k"
  by (simp add: os_error_def)

lemma walk_ENOTDIR:
  "walk t p = Inl ENOTDIR \<Longrightarrow>
   \<exists>q. prefix q p \<and> q \<noteq> p \<and> kind_at t q \<noteq> None \<and> kind_at t q \<noteq> Some Directory"
proof (induction p arbitrary: t)
  case Nil
  then show ?case by simp
next
  case (Cons c cs)
  show ?case
  proof (cases t)
    case (Dir es)
    with Cons.prems obtain n where n: "map_of es c = Some n" and w: "walk n cs = Inl ENOTDIR"
      by (auto split: option.splits)
    from Cons.IH[OF w] obtain q where q: "prefix q cs" "q \<noteq> cs" "kind_at n q \<noteq> None"
      "kind_at n q \<noteq> Some Directory" by blast
    have "kind_at t (c # q) = kind_at n q" using Dir n by (simp add: kind_at_Cons)
    with q have "prefix (c # q) (c # cs) \<and> c # q \<noteq> c # cs \<and> kind_at t (c # q) \<noteq> None
      \<and> kind_at t (c # q) \<noteq> Some Directory" by simp
    then show ?thesis by blast
  next
    case (File b)
    then have "prefix [] (c # cs) \<and> [] \<noteq> c # cs \<and> kind_at t [] \<noteq> None \<and> kind_at t [] \<noteq> Some Directory"
      by simp
    then show ?thesis by blast
  next
    case Special
    then have "prefix [] (c # cs) \<and> [] \<noteq> c # cs \<and> kind_at t [] \<noteq> None \<and> kind_at t [] \<noteq> Some Directory"
      by simp
    then show ?thesis by blast
  qed
qed

lemma walk_snoc_missing:
  assumes "kind_at t p = Some Directory" "kind_at t (p @ [c]) = None"
  shows "walk t (p @ [c]) = Inl ENOENT"
proof -
  from assms(1) obtain es where w: "walk t p = Inr (Dir es)"
    by (cases "walk t p"; cases "projr (walk t p)") (auto simp: kind_at_def)
  with assms(2) have "map_of es c = None"
    by (auto simp: kind_at_append kind_at_Cons split: option.splits)
  with w show ?thesis by (simp add: walk_append)
qed

text \<open>
  \<open>mkdir\<close> with parents succeeds when no prefix of the path is a file.
\<close>

lemma mkdir_clear:
  "(\<forall>q. prefix q p \<longrightarrow> kind_at t q = None \<or> kind_at t q = Some Directory) \<Longrightarrow>
   \<exists>t'. mkdir p True True t = (Inr (), t')"
proof (induction p arbitrary: t rule: rev_induct)
  case Nil
  then have "kind_at t [] = Some Directory" by auto
  then have d: "is_dir t []" by (simp add: is_dir_kind)
  have "os_mkdir [] t = Inl (os_error FileExistsError [])" by (simp add: os_mkdir_def)
  with d show ?case by simp
next
  case (snoc c ps)
  let ?p = "ps @ [c]"
  have clear: "kind_at t q = None \<or> kind_at t q = Some Directory" if "prefix q ?p" for q
    using snoc.prems that by blast
  show ?case
  proof (cases "os_mkdir ?p t")
    case (Inr t1)
    then show ?thesis by simp
  next
    case (Inl e)
    from os_mkdir_Inl[OF Inl]
    consider (ex) "e = os_error FileExistsError ?p" "kind_at t ?p \<noteq> None"
      | (nd) "e = os_error NotADirectoryError ?p" "walk t ?p = Inl ENOTDIR"
      | (nf) "e = os_error FileNotFoundError ?p" "walk t ?p = Inl ENOENT" "\<not> is_dir t (butlast ?p)"
      by blast
    then show ?thesis
    proof cases
      case ex
      with clear[of ?p] have "is_dir t ?p" by (simp add: is_dir_kind)
      with Inl ex show ?thesis by simp
    next
      case nd
      from walk_ENOTDIR[OF nd(2)] obtain q where "prefix q ?p" "kind_at t q \<noteq> None"
        "kind_at t q \<noteq> Some Directory" by auto
      with clear[of q] show ?thesis by simp
    next
      case nf
      have "\<forall>q. prefix q ps \<longrightarrow> kind_at t q = None \<or> kind_at t q = Some Directory"
        using clear by (auto intro: prefix_order.trans)
      from snoc.IH[OF this] obtain t1 where m1: "mkdir ps True True t = (Inr (), t1)" by blast
      have d1: "kind_at t1 ps = Some Directory" by (rule mkdir_success[OF m1])
      have "kind_at t ?p = None" using nf(2) by (rule walk_ENOENT_kind)
      with mkdir_effect[OF m1, of ?p] have "kind_at t1 ?p = None" by auto
      with d1 have "walk t1 ?p = Inl ENOENT" by (rule walk_snoc_missing)
      with d1 have "os_mkdir ?p t1 = Inr (put ?p (Dir []) t1)"
        by (simp add: os_mkdir_def is_dir_kind)
      then have m2: "mkdir ?p False True t1 = (Inr (), put ?p (Dir []) t1)" by simp
      have "mkdir ?p True True t = mkdir ?p False True t1"
        using Inl nf(1) m1 by (subst mkdir.simps) simp
      with m2 show ?thesis by simp
    qed
  qed
qed

lemma iterdir_children:
  assumes "kind_at t p = Some Directory"
  shows "\<exists>ch. iterdir p t = Inr ch \<and> (ch = [] \<longleftrightarrow> (\<forall>c. kind_at t (p @ [c]) = None))"
proof -
  from assms obtain es where w: "walk t p = Inr (Dir es)"
    by (cases "walk t p"; cases "projr (walk t p)") (auto simp: kind_at_def)
  have k: "kind_at t (p @ [c]) = map_option kind_of (map_of es c)" for c
    using w by (simp add: kind_at_append kind_at_Cons split: option.splits)
  have "es = [] \<longleftrightarrow> (\<forall>c. map_of es c = None)"
  proof (cases es)
    case Nil
    then show ?thesis by simp
  next
    case (Cons a r)
    then have "map_of es (fst a) \<noteq> None" by (cases a) simp
    then have "\<not> (\<forall>c. map_of es c = None)" by auto
    with Cons show ?thesis by simp
  qed
  with w k show ?thesis by (simp add: iterdir_def)
qed

lemma iterdir_not_dir:
  assumes "kind_at t p \<noteq> None" "kind_at t p \<noteq> Some Directory"
  shows "iterdir p t = Inl (os_error NotADirectoryError p)"
proof (cases "walk t p")
  case (Inl e)
  with assms show ?thesis by (simp add: kind_at_def)
next
  case (Inr n)
  with assms show ?thesis by (cases n) (auto simp: kind_at_def iterdir_def)
qed

section \<open>The paths and the runs of \<^verbatim>\<open>get_path\<close>\<close>

lemma butlast_tgz_file [simp]: "butlast (tgz_file w) = assets_dir w"
  by (simp add: tgz_file_def)

lemma tgz_file_not_Nil [simp]: "tgz_file w \<noteq> []"
  by (simp add: tgz_file_def)

lemma assets_dir_not_Nil [simp]: "assets_dir w \<noteq> []"
  by (simp add: assets_dir_def)


lemma package_dir_neq_tgz_file [simp]: "package_dir w \<noteq> tgz_file w"
  by (simp add: package_dir_def tgz_file_def tgz_def package_def VERSION_def)

lemma prefix_assets_tgz [simp]: "prefix (assets_dir w) (tgz_file w)"
  by (simp add: tgz_file_def)

lemma prefix_assets_package [simp]: "prefix (assets_dir w) (package_dir w)"
  by (simp add: package_dir_def)

lemma prefix_cache_assets [simp]: "prefix (CACHE_DIR w) (assets_dir w)"
  by (simp add: assets_dir_def)

lemma not_prefix_assets_cache [simp]: "\<not> prefix (assets_dir w) (CACHE_DIR w)"
  by (simp add: assets_dir_def prefix_def)

text \<open>The runs of the \<^verbatim>\<open>try\<close> block, by the step that ends them.\<close>

lemma provision_cases:
  assumes "provision w s = (r, s')"
  obtains
    (mkdir_failed) e t1 where
      "mkdir (assets_dir w) True True (fs s) = (Inl e, t1)" "r = Inl e" "s' = s\<lparr>fs := t1\<rparr>"
  | (download_failed) t1 e where
      "mkdir (assets_dir w) True True (fs s) = (Inr (), t1)"
      "download_file w url (tgz_file w) (s\<lparr>fs := t1\<rparr>) = (Inl e, s')" "r = Inl e"
  | (verify_raised) t1 s2 e where
      "mkdir (assets_dir w) True True (fs s) = (Inr (), t1)"
      "download_file w url (tgz_file w) (s\<lparr>fs := t1\<rparr>) = (Inr (), s2)"
      "verify_file_hash w (tgz_file w) EXPECTED_SHA1 (fs s2) = Inl e" "r = Inl e" "s' = s2"
  | (mismatch) t1 s2 where
      "mkdir (assets_dir w) True True (fs s) = (Inr (), t1)"
      "download_file w url (tgz_file w) (s\<lparr>fs := t1\<rparr>) = (Inr (), s2)"
      "verify_file_hash w (tgz_file w) EXPECTED_SHA1 (fs s2) = Inr False"
      "r = Inl (Exn ValueError (''Hash verification failed for '' @ path_str (tgz_file w)) None)"
      "s' = s2"
  | (extract_failed) t1 s2 e t3 where
      "mkdir (assets_dir w) True True (fs s) = (Inr (), t1)"
      "download_file w url (tgz_file w) (s\<lparr>fs := t1\<rparr>) = (Inr (), s2)"
      "verify_file_hash w (tgz_file w) EXPECTED_SHA1 (fs s2) = Inr True"
      "extract_tgz w (tgz_file w) (fs s2) = (Inl e, t3)" "r = Inl e" "s' = s2\<lparr>fs := t3\<rparr>"
  | (unlink_failed) t1 s2 t3 e t4 where
      "mkdir (assets_dir w) True True (fs s) = (Inr (), t1)"
      "download_file w url (tgz_file w) (s\<lparr>fs := t1\<rparr>) = (Inr (), s2)"
      "verify_file_hash w (tgz_file w) EXPECTED_SHA1 (fs s2) = Inr True"
      "extract_tgz w (tgz_file w) (fs s2) = (Inr (), t3)"
      "unlink (tgz_file w) t3 = (Inl e, t4)" "r = Inl e" "s' = s2\<lparr>fs := t4\<rparr>"
  | (finished) t1 s2 t3 t4 where
      "mkdir (assets_dir w) True True (fs s) = (Inr (), t1)"
      "download_file w url (tgz_file w) (s\<lparr>fs := t1\<rparr>) = (Inr (), s2)"
      "verify_file_hash w (tgz_file w) EXPECTED_SHA1 (fs s2) = Inr True"
      "extract_tgz w (tgz_file w) (fs s2) = (Inr (), t3)"
      "unlink (tgz_file w) t3 = (Inr (), t4)" "r = Inr (package_dir w)" "s' = s2\<lparr>fs := t4\<rparr>"
proof -
  obtain r1 t1 where m: "mkdir (assets_dir w) True True (fs s) = (r1, t1)" by force
  show thesis
  proof (cases r1)
    case (Inl e)
    with m assms have "r = Inl e" "s' = s\<lparr>fs := t1\<rparr>"
      by (simp_all add: provision_def and_then_def on_fs_def)
    with m Inl show thesis using mkdir_failed by simp
  next
    case (Inr u1)
    with m have m': "mkdir (assets_dir w) True True (fs s) = (Inr (), t1)" by simp
    obtain r2 s2 where d: "download_file w url (tgz_file w) (s\<lparr>fs := t1\<rparr>) = (r2, s2)" by force
    show thesis
    proof (cases r2)
      case (Inl e)
      with m' d assms have "r = Inl e" "s' = s2"
        by (simp_all add: provision_def and_then_def on_fs_def)
      with m' d Inl show thesis using download_failed by simp
    next
      case (Inr u2)
      with d have d': "download_file w url (tgz_file w) (s\<lparr>fs := t1\<rparr>) = (Inr (), s2)" by simp
      show thesis
      proof (cases "verify_file_hash w (tgz_file w) EXPECTED_SHA1 (fs s2)")
        case (Inl e)
        with m' d' assms have "r = Inl e" "s' = s2"
          by (simp_all add: provision_def and_then_def on_fs_def)
        with m' d' Inl show thesis using verify_raised by simp
      next
        case v: (Inr ok)
        show thesis
        proof (cases ok)
          case False
          with v m' d' assms
          have "r = Inl (Exn ValueError (''Hash verification failed for '' @ path_str (tgz_file w)) None)"
            "s' = s2"
            by (simp_all add: provision_def and_then_def on_fs_def)
          with m' d' v False show thesis using mismatch by simp
        next
          case True
          with v have v': "verify_file_hash w (tgz_file w) EXPECTED_SHA1 (fs s2) = Inr True" by simp
          obtain r3 t3 where x: "extract_tgz w (tgz_file w) (fs s2) = (r3, t3)" by force
          show thesis
          proof (cases r3)
            case (Inl e)
            with m' d' v' x assms have "r = Inl e" "s' = s2\<lparr>fs := t3\<rparr>"
              by (simp_all add: provision_def and_then_def on_fs_def)
            with m' d' v' x Inl show thesis using extract_failed by simp
          next
            case (Inr u3)
            with x have x': "extract_tgz w (tgz_file w) (fs s2) = (Inr (), t3)" by simp
            obtain r4 t4 where ul: "unlink (tgz_file w) t3 = (r4, t4)" by force
            show thesis
            proof (cases r4)
              case (Inl e)
              with m' d' v' x' ul assms have "r = Inl e" "s' = s2\<lparr>fs := t4\<rparr>"
                by (simp_all add: provision_def and_then_def on_fs_def)
              with m' d' v' x' ul Inl show thesis using unlink_failed by simp
            next
              case (Inr u4)
              with m' d' v' x' ul assms have "r = Inr (package_dir w)" "s' = s2\<lparr>fs := t4\<rparr>"
                by (simp_all add: provision_def and_then_def on_fs_def)
              with m' d' v' x' ul Inr show thesis using finished by simp
            qed
          qed
        qed
      qed
    qed
  qed
qed

lemma handler_effect:
  assumes "handler w e s = (r, s')"
  shows "r = Inl (Exn RuntimeError (''Failed to download Monaco Editor assets: '' @ exn_str e) (Some e))"
    and "requests s' = requests s"
    and "kind_at (fs s') q =
           (if kind_at (fs s) (assets_dir w) = Some Directory \<and> prefix (assets_dir w) q
            then None else kind_at (fs s) q)"
proof -
  show "r = Inl (Exn RuntimeError (''Failed to download Monaco Editor assets: '' @ exn_str e) (Some e))"
    using assms by (simp add: handler_def Let_def)
  obtain r1 t1 where rm: "rmtree (assets_dir w) True (fs s) = (r1, t1)" by force
  have s': "s' = (if exists (fs s) (assets_dir w) then s\<lparr>fs := t1\<rparr> else s)"
    using assms rm by (auto simp: handler_def Let_def on_fs_def)
  then show "requests s' = requests s" by simp
  note eff = rmtree_effect[OF assets_dir_not_Nil rm]
  show "kind_at (fs s') q =
           (if kind_at (fs s) (assets_dir w) = Some Directory \<and> prefix (assets_dir w) q
            then None else kind_at (fs s) q)"
  proof (cases "kind_at (fs s) (assets_dir w) = Some Directory")
    case True
    then have "exists (fs s) (assets_dir w)" by (simp add: exists_kind)
    with s' eff True show ?thesis by simp
  next
    case False
    with eff have "t1 = fs s" by simp
    with s' False show ?thesis by simp
  qed
qed

section \<open>Verification of the digest\<close>

lemma verify_file_hash_digest:
  "open_rb filename t = Inr data \<Longrightarrow>
   verify_file_hash w filename expected t = Inr (file_digest w data = expected)"
  by (simp add: verify_file_hash_def file_digest_def)

lemma open_rb_file: "kind_at t p = Some (RegFile data) \<Longrightarrow> open_rb p t = Inr data"
  by (cases "walk t p"; cases "projr (walk t p)") (auto simp: kind_at_def open_rb_def)

text \<open>
  C5. For every file, \<^verbatim>\<open>_verify_file_hash\<close> feeds the whole content of the file, in
  chunks of 4096 bytes, to the SHA-1 accumulator, and answers True exactly when the hex
  digest equals the expected value: the chunked computation gives the digest of the
  whole content fed at once. The accumulator is any one for which, as for
  \<^verbatim>\<open>hashlib\<close>, repeated updates amount to one update with the concatenation.
\<close>

theorem verify_file_hash_whole_content:
  assumes "\<forall>h. sha1_update w h [] = h"
    and "\<forall>h a b. sha1_update w (sha1_update w h a) b = sha1_update w h (a @ b)"
    and "kind_at t filename = Some (RegFile data)"
  shows "hash_chunks (sha1_update w) 4096 (sha1_new w) data = sha1_update w (sha1_new w) data
       \<and> verify_file_hash w filename expected_sha1 t =
           Inr (sha1_hexdigest w (sha1_update w (sha1_new w) data) = expected_sha1)"
proof -
  have h: "hash_chunks (sha1_update w) 4096 (sha1_new w) data = sha1_update w (sha1_new w) data"
    using hash_chunks_whole[of 4096 "sha1_update w"] assms(1,2) by simp
  from assms(3) have "open_rb filename t = Inr data" by (rule open_rb_file)
  then show ?thesis using h by (simp add: verify_file_hash_def)
qed

theorem verify_file_hash_whole_content_witness:
  "verify_file_hash sample_world [''a.tgz''] EXPECTED_SHA1 (Dir [(''a.tgz'', File sample_archive)])
     = Inr True
   \<and> verify_file_hash sample_world [''a.tgz''] EXPECTED_SHA1
       (Dir [(''a.tgz'', File (replicate 5000 0x41))]) = Inr False"
proof -
  have a: "\<forall>h. sha1_update sample_world h [] = h"
    by (simp add: sample_world_def)
  have b: "\<forall>h x y. sha1_update sample_world (sha1_update sample_world h x) y
             = sha1_update sample_world h (x @ y)"
    by (simp add: sample_world_def)
  have k1: "kind_at (Dir [(''a.tgz'', File sample_archive)]) [''a.tgz''] = Some (RegFile sample_archive)"
    by (simp add: kind_at_Cons)
  have k2: "kind_at (Dir [(''a.tgz'', File (replicate 5000 0x41))]) [''a.tgz'']
              = Some (RegFile (replicate 5000 0x41))"
    by (simp add: kind_at_Cons)
  have ne: "replicate 5000 (0x41 :: byte) \<noteq> sample_archive"
  proof
    assume "replicate 5000 (0x41 :: byte) = sample_archive"
    then have "length (replicate 5000 (0x41 :: byte)) = length sample_archive" by simp
    then show False by (simp add: sample_archive_def)
  qed
  have d: "EXPECTED_SHA1 \<noteq> ''da39a3ee5e6b4b0d3255bfef95601890afd80709''"
    by (simp add: EXPECTED_SHA1_def)
  from verify_file_hash_whole_content[OF a b k1, of EXPECTED_SHA1]
       verify_file_hash_whole_content[OF a b k2, of EXPECTED_SHA1] ne d
  show ?thesis by (simp add: sample_world_def)
qed

section \<open>The cache check and the fast path\<close>

lemmas sample_paths =
  package_dir_def assets_dir_def CACHE_DIR_def user_cache_dir_def tgz_file_def tgz_def
  package_def VERSION_def

lemma get_path_cached:
  assumes "kind_at (fs s) (package_dir w @ [c]) \<noteq> None"
  shows "get_path w s = (Inr (package_dir w), s)"
proof -
  have d: "kind_at (fs s) (package_dir w) = Some Directory"
    using kind_at_below[of "package_dir w" "package_dir w @ [c]" "fs s"] assms by simp
  then have ex: "exists (fs s) (package_dir w)" by (simp add: exists_kind)
  from iterdir_children[OF d] assms obtain ch
    where "iterdir (package_dir w) (fs s) = Inr ch" "ch \<noteq> []" by auto
  with ex show ?thesis by (simp add: get_path_def)
qed

lemma not_cached_iff:
  "not_cached w s \<longleftrightarrow>
     kind_at (fs s) (package_dir w) = None \<or>
     (kind_at (fs s) (package_dir w) = Some Directory \<and>
      (\<forall>c. kind_at (fs s) (package_dir w @ [c]) = None))"
proof (cases "kind_at (fs s) (package_dir w)")
  case None
  then show ?thesis by (simp add: not_cached_def exists_kind)
next
  case (Some k)
  show ?thesis
  proof (cases "k = Directory")
    case True
    with Some iterdir_children[of "fs s" "package_dir w"] show ?thesis
      by (auto simp: not_cached_def exists_kind)
  next
    case False
    with Some iterdir_not_dir[of "fs s" "package_dir w"] show ?thesis
      by (auto simp: not_cached_def exists_kind)
  qed
qed

lemma get_path_not_cached:
  assumes "not_cached w s"
  shows "get_path w s =
           (case provision w s of (Inr p, s') \<Rightarrow> (Inr p, s') | (Inl e, s') \<Rightarrow> handler w e s')"
proof (cases "exists (fs s) (package_dir w)")
  case False
  then show ?thesis by (simp add: get_path_def)
next
  case True
  with assms have "iterdir (package_dir w) (fs s) = Inr []" by (simp add: not_cached_def)
  with True show ?thesis by (simp add: get_path_def)
qed

lemma get_path_check_raises:
  assumes "exists (fs s) (package_dir w)" "iterdir (package_dir w) (fs s) = Inl e"
  shows "get_path w s = (Inl e, s)"
  using assms by (simp add: get_path_def)

lemma provision_requests:
  assumes "provision w s = (r, s')"
  shows "requests s' =
           (if (\<exists>t1. mkdir (assets_dir w) True True (fs s) = (Inr (), t1))
            then requests s @ [url] else requests s)"
  using assms
proof (cases rule: provision_cases)
  case (mkdir_failed e t1)
  then show ?thesis by simp
next
  case (download_failed t1 e)
  with download_file_effect(1)[OF download_failed(2)] show ?thesis by auto
next
  case (verify_raised t1 s2 e)
  with download_file_effect(1)[OF verify_raised(2)] show ?thesis by auto
next
  case (mismatch t1 s2)
  with download_file_effect(1)[OF mismatch(2)] show ?thesis by auto
next
  case (extract_failed t1 s2 e t3)
  with download_file_effect(1)[OF extract_failed(2)] show ?thesis by auto
next
  case (unlink_failed t1 s2 t3 e t4)
  with download_file_effect(1)[OF unlink_failed(2)] show ?thesis by auto
next
  case (finished t1 s2 t3 t4)
  with download_file_effect(1)[OF finished(2)] show ?thesis by auto
qed

lemma get_path_slow_requests:
  assumes "not_cached w s"
  shows "requests (snd (get_path w s)) =
           (if (\<exists>t1. mkdir (assets_dir w) True True (fs s) = (Inr (), t1))
            then requests s @ [url] else requests s)"
proof -
  obtain r s1 where p: "provision w s = (r, s1)" by force
  note rq = provision_requests[OF p]
  show ?thesis
  proof (cases r)
    case (Inr x)
    with p rq show ?thesis by (simp add: get_path_not_cached[OF assms])
  next
    case (Inl e)
    obtain r2 s2 where h: "handler w e s1 = (r2, s2)" by force
    from handler_effect(2)[OF h] rq p Inl h show ?thesis
      by (simp add: get_path_not_cached[OF assms])
  qed
qed

text \<open>
  C9. An exception raised by the cache check at the head of \<^verbatim>\<open>get_path\<close> reaches
  the caller as it is, not wrapped in a RuntimeError, and the state is left as it was
  (no cleanup): the check runs before the \<^verbatim>\<open>try\<close> block. So it is when the package
  path exists and is a regular file: listing it raises NotADirectoryError.
\<close>

theorem get_path_check_error_unwrapped:
  "(exists (fs s) (package_dir w) \<and> iterdir (package_dir w) (fs s) = Inl e
      \<longrightarrow> get_path w s = (Inl e, s))
   \<and> (kind_at (fs s) (package_dir w) = Some (RegFile b)
      \<longrightarrow> get_path w s = (Inl (os_error NotADirectoryError (package_dir w)), s)
          \<and> exn_type (os_error NotADirectoryError (package_dir w)) \<noteq> RuntimeError
          \<and> exn_cause (os_error NotADirectoryError (package_dir w)) = None)"
proof (intro conjI impI)
  assume "exists (fs s) (package_dir w) \<and> iterdir (package_dir w) (fs s) = Inl e"
  then show "get_path w s = (Inl e, s)" using get_path_check_raises by blast
next
  assume k: "kind_at (fs s) (package_dir w) = Some (RegFile b)"
  then have "exists (fs s) (package_dir w)" by (simp add: exists_kind)
  moreover have "iterdir (package_dir w) (fs s) = Inl (os_error NotADirectoryError (package_dir w))"
    using k by (intro iterdir_not_dir) simp_all
  ultimately show "get_path w s = (Inl (os_error NotADirectoryError (package_dir w)), s)"
    by (rule get_path_check_raises)
next
  show "exn_type (os_error NotADirectoryError (package_dir w)) \<noteq> RuntimeError" by simp
next
  show "exn_cause (os_error NotADirectoryError (package_dir w)) = None" by (simp add: os_error_def)
qed

theorem get_path_check_error_unwrapped_witness:
  "kind_at (fs clobbered_state) (package_dir sample_world) = Some (RegFile [0x00])
   \<and> get_path sample_world clobbered_state
       = (Inl (os_error NotADirectoryError (package_dir sample_world)), clobbered_state)"
proof -
  have k: "kind_at (fs clobbered_state) (package_dir sample_world) = Some (RegFile [0x00])"
    by (simp add: clobbered_state_def sample_world_def sample_paths kind_at_Cons)
  with get_path_check_error_unwrapped[of clobbered_state sample_world _ "[0x00]"]
  show ?thesis by simp
qed

text \<open>
  C10. On the fast path (the package directory exists and has an entry) \<^verbatim>\<open>get_path\<close>
  leaves the whole state as it found it: nothing is created, written or deleted, and
  nothing is requested.
\<close>

theorem cached_call_changes_nothing:
  "kind_at (fs s) (package_dir w @ [c]) \<noteq> None \<Longrightarrow> snd (get_path w s) = s"
  by (simp add: get_path_cached)

theorem cached_call_changes_nothing_witness:
  "kind_at (fs cached_state) (package_dir sample_world @ [''package.json'']) \<noteq> None
   \<and> snd (get_path sample_world cached_state) = cached_state"
proof -
  have k: "kind_at (fs cached_state) (package_dir sample_world @ [''package.json'']) \<noteq> None"
    by (simp add: cached_state_def sample_world_def sample_paths kind_at_Cons)
  with cached_call_changes_nothing[OF k] show ?thesis by simp
qed

lemma mkdir_existing:
  assumes "kind_at t p = Some Directory"
  shows "\<exists>t'. mkdir p True True t = (Inr (), t')"
proof (rule mkdir_clear, intro allI impI)
  fix q assume "prefix q p"
  then show "kind_at t q = None \<or> kind_at t q = Some Directory"
    using kind_at_below[of q p t] assms by (cases "q = p") auto
qed

lemma get_path_same_paths:
  "cache_home w' = cache_home w \<Longrightarrow> package_dir w' = package_dir w"
  by (simp add: package_dir_def assets_dir_def CACHE_DIR_def user_cache_dir_def)

text \<open>
  C4. If the package directory exists and has at least one entry, \<^verbatim>\<open>get_path\<close>
  returns it at once: no request is sent, and the result does not depend on what the
  registry would answer, on the digest or on the archive reader. An existing but empty
  package directory does not take this path: the archive is requested.
\<close>

theorem get_path_fast_path:
  "(kind_at (fs s) (package_dir w @ [c]) \<noteq> None \<longrightarrow>
      fst (get_path w s) = Inr (package_dir w)
      \<and> requests (snd (get_path w s)) = requests s
      \<and> (\<forall>w' :: 'h world. cache_home w' = cache_home w \<longrightarrow> get_path w' s = get_path w s))
   \<and> (kind_at (fs s) (package_dir w) = Some Directory
        \<and> (\<forall>c. kind_at (fs s) (package_dir w @ [c]) = None) \<longrightarrow>
      requests (snd (get_path w s)) = requests s @ [url])"
proof (intro conjI impI allI)
  assume k: "kind_at (fs s) (package_dir w @ [c]) \<noteq> None"
  then show "fst (get_path w s) = Inr (package_dir w)" by (simp add: get_path_cached)
  from k show "requests (snd (get_path w s)) = requests s" by (simp add: get_path_cached)
  fix w' :: "'h world" assume "cache_home w' = cache_home w"
  then have "package_dir w' = package_dir w" by (rule get_path_same_paths)
  with k show "get_path w' s = get_path w s"
    using get_path_cached[of s w c] get_path_cached[of s w' c] by simp
next
  assume e: "kind_at (fs s) (package_dir w) = Some Directory
             \<and> (\<forall>c. kind_at (fs s) (package_dir w @ [c]) = None)"
  then have nc: "not_cached w s" by (simp add: not_cached_iff)
  have "kind_at (fs s) (assets_dir w) = Some Directory"
    using kind_at_below[of "assets_dir w" "package_dir w" "fs s"] e
    by (simp add: package_dir_def)
  from mkdir_existing[OF this] get_path_slow_requests[OF nc]
  show "requests (snd (get_path w s)) = requests s @ [url]" by auto
qed

theorem get_path_fast_path_witness:
  "fst (get_path sample_world cached_state) = Inr (package_dir sample_world)
   \<and> requests (snd (get_path sample_world cached_state)) = requests cached_state
   \<and> get_path offline_world cached_state = get_path sample_world cached_state
   \<and> requests (snd (get_path sample_world hollow_state)) = requests hollow_state @ [url]"
proof -
  have k: "kind_at (fs cached_state) (package_dir sample_world @ [''package.json'']) \<noteq> None"
    by (simp add: cached_state_def sample_world_def sample_paths kind_at_Cons)
  have h: "kind_at (fs hollow_state) (package_dir sample_world) = Some Directory
           \<and> (\<forall>c. kind_at (fs hollow_state) (package_dir sample_world @ [c]) = None)"
    by (simp add: hollow_state_def sample_world_def sample_paths kind_at_Cons)
  have o: "cache_home offline_world = cache_home sample_world"
    by (simp add: offline_world_def)
  note fast = get_path_fast_path[of cached_state sample_world "''package.json''"]
  note slow = get_path_fast_path[of hollow_state sample_world]
  have a: "fst (get_path sample_world cached_state) = Inr (package_dir sample_world)"
    using fast k by blast
  have b: "requests (snd (get_path sample_world cached_state)) = requests cached_state"
    using fast k by blast
  have c: "get_path offline_world cached_state = get_path sample_world cached_state"
    using fast k o by blast
  have d: "requests (snd (get_path sample_world hollow_state)) = requests hollow_state @ [url]"
    using slow h by blast
  from a b c d show ?thesis by blast
qed

section \<open>Clearing the cache\<close>



section \<open>The slow path\<close>

lemma extract_tgz_cases:
  assumes "extract_tgz w p t = (r, t')"
  shows "(\<exists>e. r = Inl e \<and> t' = t)
       \<or> (\<exists>data members. open_rb p t = Inr data \<and> tar_open w data = Inr members
            \<and> extract_members (supports_filter w) (butlast p) members t = (r, t'))"
proof (cases "open_rb p t")
  case (Inl e)
  with assms show ?thesis by (auto simp: extract_tgz_def)
next
  case (Inr data)
  with assms show ?thesis
    by (cases "tar_open w data") (auto simp: extract_tgz_def Let_def)
qed

lemma extract_tgz_dirs:
  assumes "extract_tgz w p t = (r, t')" "kind_at t q = Some Directory"
  shows "kind_at t' q = Some Directory"
  using extract_tgz_cases[OF assms(1)] assms(2) extract_members_dirs by blast

text \<open>Once the version directory is made, no later step of the \<^verbatim>\<open>try\<close> block removes a directory.\<close>

lemma provision_keeps_dirs:
  assumes "provision w s = (r, s')" "mkdir (assets_dir w) True True (fs s) = (Inr (), t1)"
    and "kind_at t1 q = Some Directory"
  shows "kind_at (fs s') q = Some Directory"
proof -
  have dl: "kind_at (fs s2) q = Some Directory"
    if "download_file w url (tgz_file w) (s\<lparr>fs := t1\<rparr>) = (r2, s2)" for r2 s2
    using download_file_effect(2)[OF that, of q] assms(3) by auto
  have ul: "kind_at t4 q = Some Directory"
    if "unlink (tgz_file w) t3 = (r4, t4)" "kind_at t3 q = Some Directory" for r4 t3 t4
  proof (cases r4)
    case (Inl e)
    with unlink_effect[OF tgz_file_not_Nil that(1)] that(2) show ?thesis by simp
  next
    case (Inr u)
    with unlink_effect[OF tgz_file_not_Nil that(1)] that(2) show ?thesis by auto
  qed
  from assms(1) show ?thesis
  proof (cases rule: provision_cases)
    case (mkdir_failed e t1)
    with assms(2) show ?thesis by simp
  next
    case (download_failed t1' e)
    with assms(2) dl show ?thesis by simp
  next
    case (verify_raised t1' s2 e)
    with assms(2) dl show ?thesis by simp
  next
    case (mismatch t1' s2)
    with assms(2) dl show ?thesis by simp
  next
    case (extract_failed t1' s2 e t3)
    with assms(2) dl have "kind_at (fs s2) q = Some Directory" by simp
    from extract_tgz_dirs[OF extract_failed(4) this] extract_failed(6) show ?thesis by simp
  next
    case (unlink_failed t1' s2 t3 e t4)
    with assms(2) dl have "kind_at (fs s2) q = Some Directory" by simp
    from extract_tgz_dirs[OF unlink_failed(4) this] have "kind_at t3 q = Some Directory" .
    from ul[OF unlink_failed(5) this] unlink_failed(7) show ?thesis by simp
  next
    case (finished t1' s2 t3 t4)
    with assms(2) dl have "kind_at (fs s2) q = Some Directory" by simp
    from extract_tgz_dirs[OF finished(4) this] have "kind_at t3 q = Some Directory" .
    from ul[OF finished(5) this] finished(7) show ?thesis by simp
  qed
qed

lemma cache_dir_below_assets:
  "kind_at t (assets_dir w) = Some Directory \<Longrightarrow> kind_at t (CACHE_DIR w) = Some Directory"
  using kind_at_below[of "CACHE_DIR w" "assets_dir w" t]
  by (simp add: assets_dir_def)

text \<open>
  C8 (as amended). \<^verbatim>\<open>clear_cache\<close> never creates the cache root, but
  \<^verbatim>\<open>get_path\<close> does: when the package is not cached and no file stands in the way,
  \<^verbatim>\<open>mkdir(parents=True)\<close> makes the version directory with every missing ancestor,
  the cache root among them, and the cache root is a directory when \<^verbatim>\<open>get_path\<close>
  ends, whether it returns or raises.
\<close>

theorem get_path_creates_cache_root:
  "(not_cached w s
      \<and> (\<forall>q. prefix q (assets_dir w) \<longrightarrow> kind_at (fs s) q = None \<or> kind_at (fs s) q = Some Directory)
     \<longrightarrow> kind_at (fs (snd (get_path w s))) (CACHE_DIR w) = Some Directory)
   \<and> (kind_at (fs s) (CACHE_DIR w) = None
     \<longrightarrow> kind_at (fs (snd (clear_cache w s))) (CACHE_DIR w) = None)"
proof (intro conjI impI)
  assume a: "not_cached w s
      \<and> (\<forall>q. prefix q (assets_dir w) \<longrightarrow> kind_at (fs s) q = None \<or> kind_at (fs s) q = Some Directory)"
  then have nc: "not_cached w s" by simp
  from a mkdir_clear[of "assets_dir w" "fs s"] obtain t1
    where m: "mkdir (assets_dir w) True True (fs s) = (Inr (), t1)" by blast
  have "kind_at t1 (CACHE_DIR w) = Some Directory"
    using mkdir_success[OF m] by (rule cache_dir_below_assets)
  obtain r s1 where p: "provision w s = (r, s1)" by force
  have k1: "kind_at (fs s1) (CACHE_DIR w) = Some Directory"
    by (rule provision_keeps_dirs[OF p m]) fact
  show "kind_at (fs (snd (get_path w s))) (CACHE_DIR w) = Some Directory"
  proof (cases r)
    case (Inr x)
    with p k1 show ?thesis by (simp add: get_path_not_cached[OF nc])
  next
    case (Inl e)
    obtain r2 s2 where h: "handler w e s1 = (r2, s2)" by force
    from handler_effect(3)[OF h, of "CACHE_DIR w"] k1
    have "kind_at (fs s2) (CACHE_DIR w) = Some Directory" by simp
    with p Inl h show ?thesis by (simp add: get_path_not_cached[OF nc])
  qed
next
  assume "kind_at (fs s) (CACHE_DIR w) = None"
  then show "kind_at (fs (snd (clear_cache w s))) (CACHE_DIR w) = None"
    by (simp add: clear_cache_def exists_kind)
qed

theorem get_path_creates_cache_root_witness:
  "kind_at (fs fresh_state) (CACHE_DIR sample_world) = None
   \<and> not_cached sample_world fresh_state
   \<and> kind_at (fs (snd (get_path sample_world fresh_state))) (CACHE_DIR sample_world) = Some Directory
   \<and> kind_at (fs (snd (clear_cache sample_world fresh_state))) (CACHE_DIR sample_world) = None"
proof -
  have k: "kind_at (fs fresh_state) (CACHE_DIR sample_world) = None"
    by (simp add: fresh_state_def sample_world_def sample_paths kind_at_Cons)
  then have p: "kind_at (fs fresh_state) (package_dir sample_world) = None"
    using kind_at_None_below[of "CACHE_DIR sample_world" "package_dir sample_world"]
    by (simp add: package_dir_def assets_dir_def)
  then have nc: "not_cached sample_world fresh_state" by (simp add: not_cached_iff)
  have cl: "kind_at (fs fresh_state) q = None \<or> kind_at (fs fresh_state) q = Some Directory" for q
    by (cases q; cases "tl q"; cases "tl (tl q)")
       (auto simp: fresh_state_def kind_at_Cons split: option.splits)
  from get_path_creates_cache_root[of sample_world fresh_state] k nc cl
  show ?thesis by blast
qed

text \<open>
  C8 as the specification states it fails: on a fresh account, where the cache root
  does not exist, a call of \<^verbatim>\<open>get_path\<close> that cannot reach the registry leaves the
  cache root behind as a new directory.
\<close>

theorem cache_root_created_counterexample:
  "kind_at (fs fresh_state) (CACHE_DIR offline_world) = None
   \<and> kind_at (fs (snd (get_path offline_world fresh_state))) (CACHE_DIR offline_world)
       = Some Directory"
  by code_simp





lemma walk_missing:
  assumes "p \<noteq> []" "kind_at t (butlast p) = Some Directory" "kind_at t p = None"
  shows "walk t p = Inl ENOENT"
proof -
  from assms(1) have p: "p = butlast p @ [last p]" by simp
  from assms(3) have "kind_at t (butlast p @ [last p]) = None" using p by simp
  from walk_snoc_missing[OF assms(2) this] p show ?thesis by simp
qed

lemma write_file_total:
  assumes "p \<noteq> []" "kind_at t (butlast p) = Some Directory"
    and "kind_at t p = None \<or> (\<exists>b. kind_at t p = Some (RegFile b))"
  shows "\<exists>t'. write_file p d t = Inr t' \<and> kind_at t' p = Some (RegFile d)"
proof -
  have "\<exists>t'. write_file p d t = Inr t'"
  proof (cases "kind_at t p")
    case None
    from walk_missing[OF assms(1,2) None] assms(2) show ?thesis
      by (simp add: write_file_def is_dir_kind)
  next
    case (Some k)
    with assms(3) obtain b where "kind_at t p = Some (RegFile b)" by auto
    then have "walk t p = Inr (File b)"
      by (cases "walk t p"; cases "projr (walk t p)") (auto simp: kind_at_def)
    then show ?thesis by (simp add: write_file_def)
  qed
  then obtain t' where w: "write_file p d t = Inr t'" by blast
  from write_file_Inr(2)[OF w, of p] assms(3) have "kind_at t' p = Some (RegFile d)" by auto
  with w show ?thesis by blast
qed

text \<open>
  A run on which the registry delivers, in full, content whose digest is not the
  pinned one.
\<close>

lemma provision_mismatch:
  assumes "\<forall>q. prefix q (assets_dir w) \<longrightarrow> kind_at (fs s) q = None \<or> kind_at (fs s) q = Some Directory"
    and "kind_at (fs s) (tgz_file w) = None \<or> (\<exists>b. kind_at (fs s) (tgz_file w) = Some (RegFile b))"
    and "urlopen w url = Stream data None"
    and "file_digest w data \<noteq> EXPECTED_SHA1"
  shows "\<exists>t1 s2. mkdir (assets_dir w) True True (fs s) = (Inr (), t1)
           \<and> download_file w url (tgz_file w) (s\<lparr>fs := t1\<rparr>) = (Inr (), s2)
           \<and> verify_file_hash w (tgz_file w) EXPECTED_SHA1 (fs s2) = Inr False
           \<and> provision w s =
               (Inl (Exn ValueError (''Hash verification failed for '' @ path_str (tgz_file w)) None), s2)"
proof -
  from mkdir_clear[of "assets_dir w" "fs s"] assms(1) obtain t1
    where m: "mkdir (assets_dir w) True True (fs s) = (Inr (), t1)" by blast
  have d1: "kind_at t1 (butlast (tgz_file w)) = Some Directory"
    using mkdir_success[OF m] by simp
  have "\<not> prefix (tgz_file w) (assets_dir w)" by (simp add: tgz_file_def prefix_def)
  with mkdir_effect[OF m, of "tgz_file w"]
  have "kind_at t1 (tgz_file w) = kind_at (fs s) (tgz_file w)" by auto
  with assms(2) have "kind_at t1 (tgz_file w) = None \<or> (\<exists>b. kind_at t1 (tgz_file w) = Some (RegFile b))"
    by simp
  from write_file_total[OF tgz_file_not_Nil d1 this, of data] obtain t2
    where wr: "write_file (tgz_file w) data t1 = Inr t2"
      and k2: "kind_at t2 (tgz_file w) = Some (RegFile data)" by blast
  define s2 where "s2 = s\<lparr>fs := t2, requests := requests s @ [url]\<rparr>"
  have dl: "download_file w url (tgz_file w) (s\<lparr>fs := t1\<rparr>) = (Inr (), s2)"
    using assms(3) wr by (simp add: download_file_def Let_def s2_def)
  have "open_rb (tgz_file w) (fs s2) = Inr data"
    using k2 by (simp add: s2_def open_rb_file)
  with assms(4) have v: "verify_file_hash w (tgz_file w) EXPECTED_SHA1 (fs s2) = Inr False"
    by (simp add: verify_file_hash_digest)
  have "provision w s =
          (Inl (Exn ValueError (''Hash verification failed for '' @ path_str (tgz_file w)) None), s2)"
    using m dl v by (simp add: provision_def and_then_def on_fs_def)
  with m dl v show ?thesis by blast
qed

text \<open>
  C3 (as amended). When the downloaded archive's digest is not the pinned one,
  \<^verbatim>\<open>get_path\<close> fails with a RuntimeError raised from a ValueError whose message is
  \<^verbatim>\<open>Hash verification failed for\<close> followed by the path of the archive file: the error
  is determined by that path alone, whatever the two digests are.
\<close>

theorem get_path_hash_mismatch_error:
  assumes "not_cached w s"
    and "\<forall>q. prefix q (assets_dir w) \<longrightarrow> kind_at (fs s) q = None \<or> kind_at (fs s) q = Some Directory"
    and "kind_at (fs s) (tgz_file w) = None \<or> (\<exists>b. kind_at (fs s) (tgz_file w) = Some (RegFile b))"
    and "urlopen w url = Stream data None"
    and "file_digest w data \<noteq> EXPECTED_SHA1"
  shows "fst (get_path w s) =
           Inl (Exn RuntimeError
                  (''Failed to download Monaco Editor assets: ''
                     @ ''Hash verification failed for '' @ path_str (tgz_file w))
                  (Some (Exn ValueError
                           (''Hash verification failed for '' @ path_str (tgz_file w)) None)))"
proof -
  from provision_mismatch[OF assms(2-5)] obtain s2 where
    p: "provision w s =
          (Inl (Exn ValueError (''Hash verification failed for '' @ path_str (tgz_file w)) None), s2)"
    by blast
  obtain r3 s3 where h: "handler w
      (Exn ValueError (''Hash verification failed for '' @ path_str (tgz_file w)) None) s2 = (r3, s3)"
    by force
  from handler_effect(1)[OF h] p h show ?thesis
    by (simp add: get_path_not_cached[OF assms(1)])
qed

theorem get_path_hash_mismatch_error_witness:
  "file_digest tampered_world [0x00] \<noteq> EXPECTED_SHA1
   \<and> fst (get_path tampered_world fresh_state) =
       Inl (Exn RuntimeError
              (''Failed to download Monaco Editor assets: ''
                 @ ''Hash verification failed for '' @ path_str (tgz_file tampered_world))
              (Some (Exn ValueError
                       (''Hash verification failed for '' @ path_str (tgz_file tampered_world))
                       None)))"
proof -
  have cl: "kind_at (fs fresh_state) q = None \<or> kind_at (fs fresh_state) q = Some Directory" for q
    by (cases q; cases "tl q"; cases "tl (tl q)")
       (auto simp: fresh_state_def kind_at_Cons split: option.splits)
  have k: "kind_at (fs fresh_state) (CACHE_DIR tampered_world) = None"
    by (simp add: fresh_state_def tampered_world_def sample_world_def sample_paths kind_at_Cons)
  then have p: "kind_at (fs fresh_state) (package_dir tampered_world) = None"
    using kind_at_None_below[of "CACHE_DIR tampered_world" "package_dir tampered_world"]
    by (simp add: package_dir_def assets_dir_def)
  then have nc: "not_cached tampered_world fresh_state" by (simp add: not_cached_iff)
  from k have tz: "kind_at (fs fresh_state) (tgz_file tampered_world) = None"
    using kind_at_None_below[of "CACHE_DIR tampered_world" "tgz_file tampered_world"]
    by (simp add: tgz_file_def assets_dir_def)
  have net: "urlopen tampered_world url = Stream [0x00] None"
    by (simp add: tampered_world_def)
  have bad: "file_digest tampered_world [0x00] \<noteq> EXPECTED_SHA1"
    by code_simp
  from get_path_hash_mismatch_error[OF nc _ _ net bad] cl tz bad show ?thesis by blast
qed

text \<open>
  C3 as the specification states it fails: the error of a hash mismatch carries neither
  the expected digest nor the computed one, in its own message or in that of its cause.
\<close>

theorem hash_mismatch_error_counterexample:
  "file_digest tampered_world [0x00] \<noteq> EXPECTED_SHA1
   \<and> fst (get_path tampered_world fresh_state) =
       Inl (Exn RuntimeError
              ''Failed to download Monaco Editor assets: Hash verification failed for /home/u/.cache/monaco-assets/monaco-editor-0.54.0/monaco-editor-0.54.0.tgz''
              (Some (Exn ValueError
                       ''Hash verification failed for /home/u/.cache/monaco-assets/monaco-editor-0.54.0/monaco-editor-0.54.0.tgz''
                       None)))
   \<and> \<not> carries (projl (fst (get_path tampered_world fresh_state))) EXPECTED_SHA1
   \<and> \<not> carries (projl (fst (get_path tampered_world fresh_state)))
            (file_digest tampered_world [0x00])"
  by code_simp



section \<open>Extraction of the archive\<close>






end
